theory Spec2Isabelle
  imports Main "HOL-Library.Word" "HOL-Library.Sublist"
begin

section \<open>Package tsm1: typed block reads of the memory-mapped accessor\<close>

text \<open>
  The file \<^verbatim>\<open>reader.gen.go\<close> holds ten methods of \<^verbatim>\<open>mmapAccessor\<close>, generated from one
  template: \<^verbatim>\<open>read<T>Block\<close> and \<^verbatim>\<open>read<T>ArrayBlock\<close> for Float, Integer, Unsigned,
  String and Boolean. Each one increments the access counter, takes the read lock,
  compares \<^verbatim>\<open>int64(len(m.b))\<close> with \<^verbatim>\<open>entry.Offset+int64(entry.Size)\<close>, and either returns
  \<^verbatim>\<open>ErrTSMClosed\<close> or hands the slice
  \<^verbatim>\<open>m.b[entry.Offset+4 : entry.Offset+int64(entry.Size)]\<close> to the decoder of its type.

  The model is sequential: one call, running alone. The lock operations have no effect
  on the value computed by one call and are left out.
\<close>

type_synonym byte = "8 word"

text \<open>
  Go's \<^verbatim>\<open>error\<close> values that the modelled code creates or inspects.
  \<^verbatim>\<open>ErrTSMClosed\<close> is the package variable of tsm1; \<^verbatim>\<open>ErrNotExist\<close> is \<^verbatim>\<open>os.ErrNotExist\<close>;
  \<^verbatim>\<open>PathError op path err\<close> is \<^verbatim>\<open>*os.PathError\<close>; \<^verbatim>\<open>ErrorString\<close> is any other error, by
  its message; \<^verbatim>\<open>ProblemCreatingSeries err\<close> is the value of
  \<^verbatim>\<open>fmt.Errorf("problem creating series: (%s)", err)\<close>.
\<close>

datatype error =
    ErrTSMClosed
  | ErrNotExist
  | PathError string string error
  | ErrorString string
  | ProblemCreatingSeries error

text \<open>A call either returns or ends in a run-time panic of the Go runtime.\<close>

datatype 'a outcome = Returned 'a | Panic

text \<open>
  Modelled from the spec: the struct \<^verbatim>\<open>IndexEntry\<close> is declared outside the given sources;
  the spec gives it as \<^verbatim>\<open>{offset: int64, size: uint32, minTime: int64, maxTime: int64}\<close>.
\<close>

record IndexEntry =
  MinTime :: "64 word"
  MaxTime :: "64 word"
  Offset :: "64 word"
  Size :: "32 word"

text \<open>
  Modelled from the spec: the struct \<^verbatim>\<open>mmapAccessor\<close> is declared outside the given sources.
  The methods use its field \<^verbatim>\<open>b\<close> (the mapped region, a byte slice whose capacity is its
  length) and, through \<^verbatim>\<open>incAccess\<close>, the access counter the spec describes (``each access
  increments an access/usage counter'').
\<close>

record mmapAccessor =
  accessCount :: "64 word"
  m_b :: "byte list"

definition incAccess :: "mmapAccessor \<Rightarrow> mmapAccessor" where
  "incAccess m = m\<lparr>accessCount := accessCount m + 1\<rparr>"

text \<open>
  The Go slice expression \<^verbatim>\<open>s[lo:hi]\<close> with \<^verbatim>\<open>int64\<close> indices: it panics unless
  \<^verbatim>\<open>0 <= lo <= hi <= cap(s)\<close>, and otherwise yields the bytes at the indices
  \<^verbatim>\<open>lo, ..., hi-1\<close>. \<open>None\<close> is the panic.
\<close>

definition slice_bytes :: "byte list \<Rightarrow> 64 word \<Rightarrow> 64 word \<Rightarrow> byte list option" where
  "slice_bytes s lo hi =
     (if 0 \<le> sint lo \<and> sint lo \<le> sint hi \<and> sint hi \<le> int (length s)
      then Some (take (nat (sint hi) - nat (sint lo)) (drop (nat (sint lo)) s))
      else None)"

text \<open>
  The decoders (\<^verbatim>\<open>DecodeFloatBlock\<close>, \<^verbatim>\<open>DecodeFloatArrayBlock\<close>, ...) are defined outside the
  given sources, so each method takes its decoder as its first argument. A block decoder
  maps the bytes and the caller's buffer to an error or the decoded values; an array
  decoder maps the bytes and the caller's array to the updated array and an optional
  error.
\<close>

definition readFloatBlock ::
  "(byte list \<Rightarrow> 'buf \<Rightarrow> error + 'v) \<Rightarrow> mmapAccessor \<Rightarrow> IndexEntry \<Rightarrow> 'buf
     \<Rightarrow> mmapAccessor \<times> (error + 'v) outcome" where
  "readFloatBlock DecodeFloatBlock m0 entry vals =
     (let m = incAccess m0 in
      if word_of_nat (length (m_b m)) <s Offset entry + ucast (Size entry)
      then (m, Returned (Inl ErrTSMClosed))
      else case slice_bytes (m_b m) (Offset entry + 4) (Offset entry + ucast (Size entry)) of
             None \<Rightarrow> (m, Panic)
           | Some bs \<Rightarrow>
               (case DecodeFloatBlock bs vals of
                  Inl err \<Rightarrow> (m, Returned (Inl err))
                | Inr a \<Rightarrow> (m, Returned (Inr a))))"

definition readFloatArrayBlock ::
  "(byte list \<Rightarrow> 'arr \<Rightarrow> 'arr \<times> error option) \<Rightarrow> mmapAccessor \<Rightarrow> IndexEntry \<Rightarrow> 'arr
     \<Rightarrow> mmapAccessor \<times> ('arr \<times> error option) outcome" where
  "readFloatArrayBlock DecodeFloatArrayBlock m0 entry vals =
     (let m = incAccess m0 in
      if word_of_nat (length (m_b m)) <s Offset entry + ucast (Size entry)
      then (m, Returned (vals, Some ErrTSMClosed))
      else case slice_bytes (m_b m) (Offset entry + 4) (Offset entry + ucast (Size entry)) of
             None \<Rightarrow> (m, Panic)
           | Some bs \<Rightarrow> (m, Returned (DecodeFloatArrayBlock bs vals)))"

definition readIntegerBlock ::
  "(byte list \<Rightarrow> 'buf \<Rightarrow> error + 'v) \<Rightarrow> mmapAccessor \<Rightarrow> IndexEntry \<Rightarrow> 'buf
     \<Rightarrow> mmapAccessor \<times> (error + 'v) outcome" where
  "readIntegerBlock DecodeIntegerBlock m0 entry vals =
     (let m = incAccess m0 in
      if word_of_nat (length (m_b m)) <s Offset entry + ucast (Size entry)
      then (m, Returned (Inl ErrTSMClosed))
      else case slice_bytes (m_b m) (Offset entry + 4) (Offset entry + ucast (Size entry)) of
             None \<Rightarrow> (m, Panic)
           | Some bs \<Rightarrow>
               (case DecodeIntegerBlock bs vals of
                  Inl err \<Rightarrow> (m, Returned (Inl err))
                | Inr a \<Rightarrow> (m, Returned (Inr a))))"

definition readIntegerArrayBlock ::
  "(byte list \<Rightarrow> 'arr \<Rightarrow> 'arr \<times> error option) \<Rightarrow> mmapAccessor \<Rightarrow> IndexEntry \<Rightarrow> 'arr
     \<Rightarrow> mmapAccessor \<times> ('arr \<times> error option) outcome" where
  "readIntegerArrayBlock DecodeIntegerArrayBlock m0 entry vals =
     (let m = incAccess m0 in
      if word_of_nat (length (m_b m)) <s Offset entry + ucast (Size entry)
      then (m, Returned (vals, Some ErrTSMClosed))
      else case slice_bytes (m_b m) (Offset entry + 4) (Offset entry + ucast (Size entry)) of
             None \<Rightarrow> (m, Panic)
           | Some bs \<Rightarrow> (m, Returned (DecodeIntegerArrayBlock bs vals)))"

definition readUnsignedBlock ::
  "(byte list \<Rightarrow> 'buf \<Rightarrow> error + 'v) \<Rightarrow> mmapAccessor \<Rightarrow> IndexEntry \<Rightarrow> 'buf
     \<Rightarrow> mmapAccessor \<times> (error + 'v) outcome" where
  "readUnsignedBlock DecodeUnsignedBlock m0 entry vals =
     (let m = incAccess m0 in
      if word_of_nat (length (m_b m)) <s Offset entry + ucast (Size entry)
      then (m, Returned (Inl ErrTSMClosed))
      else case slice_bytes (m_b m) (Offset entry + 4) (Offset entry + ucast (Size entry)) of
             None \<Rightarrow> (m, Panic)
           | Some bs \<Rightarrow>
               (case DecodeUnsignedBlock bs vals of
                  Inl err \<Rightarrow> (m, Returned (Inl err))
                | Inr a \<Rightarrow> (m, Returned (Inr a))))"

definition readUnsignedArrayBlock ::
  "(byte list \<Rightarrow> 'arr \<Rightarrow> 'arr \<times> error option) \<Rightarrow> mmapAccessor \<Rightarrow> IndexEntry \<Rightarrow> 'arr
     \<Rightarrow> mmapAccessor \<times> ('arr \<times> error option) outcome" where
  "readUnsignedArrayBlock DecodeUnsignedArrayBlock m0 entry vals =
     (let m = incAccess m0 in
      if word_of_nat (length (m_b m)) <s Offset entry + ucast (Size entry)
      then (m, Returned (vals, Some ErrTSMClosed))
      else case slice_bytes (m_b m) (Offset entry + 4) (Offset entry + ucast (Size entry)) of
             None \<Rightarrow> (m, Panic)
           | Some bs \<Rightarrow> (m, Returned (DecodeUnsignedArrayBlock bs vals)))"

definition readStringBlock ::
  "(byte list \<Rightarrow> 'buf \<Rightarrow> error + 'v) \<Rightarrow> mmapAccessor \<Rightarrow> IndexEntry \<Rightarrow> 'buf
     \<Rightarrow> mmapAccessor \<times> (error + 'v) outcome" where
  "readStringBlock DecodeStringBlock m0 entry vals =
     (let m = incAccess m0 in
      if word_of_nat (length (m_b m)) <s Offset entry + ucast (Size entry)
      then (m, Returned (Inl ErrTSMClosed))
      else case slice_bytes (m_b m) (Offset entry + 4) (Offset entry + ucast (Size entry)) of
             None \<Rightarrow> (m, Panic)
           | Some bs \<Rightarrow>
               (case DecodeStringBlock bs vals of
                  Inl err \<Rightarrow> (m, Returned (Inl err))
                | Inr a \<Rightarrow> (m, Returned (Inr a))))"

definition readStringArrayBlock ::
  "(byte list \<Rightarrow> 'arr \<Rightarrow> 'arr \<times> error option) \<Rightarrow> mmapAccessor \<Rightarrow> IndexEntry \<Rightarrow> 'arr
     \<Rightarrow> mmapAccessor \<times> ('arr \<times> error option) outcome" where
  "readStringArrayBlock DecodeStringArrayBlock m0 entry vals =
     (let m = incAccess m0 in
      if word_of_nat (length (m_b m)) <s Offset entry + ucast (Size entry)
      then (m, Returned (vals, Some ErrTSMClosed))
      else case slice_bytes (m_b m) (Offset entry + 4) (Offset entry + ucast (Size entry)) of
             None \<Rightarrow> (m, Panic)
           | Some bs \<Rightarrow> (m, Returned (DecodeStringArrayBlock bs vals)))"

definition readBooleanBlock ::
  "(byte list \<Rightarrow> 'buf \<Rightarrow> error + 'v) \<Rightarrow> mmapAccessor \<Rightarrow> IndexEntry \<Rightarrow> 'buf
     \<Rightarrow> mmapAccessor \<times> (error + 'v) outcome" where
  "readBooleanBlock DecodeBooleanBlock m0 entry vals =
     (let m = incAccess m0 in
      if word_of_nat (length (m_b m)) <s Offset entry + ucast (Size entry)
      then (m, Returned (Inl ErrTSMClosed))
      else case slice_bytes (m_b m) (Offset entry + 4) (Offset entry + ucast (Size entry)) of
             None \<Rightarrow> (m, Panic)
           | Some bs \<Rightarrow>
               (case DecodeBooleanBlock bs vals of
                  Inl err \<Rightarrow> (m, Returned (Inl err))
                | Inr a \<Rightarrow> (m, Returned (Inr a))))"

definition readBooleanArrayBlock ::
  "(byte list \<Rightarrow> 'arr \<Rightarrow> 'arr \<times> error option) \<Rightarrow> mmapAccessor \<Rightarrow> IndexEntry \<Rightarrow> 'arr
     \<Rightarrow> mmapAccessor \<times> ('arr \<times> error option) outcome" where
  "readBooleanArrayBlock DecodeBooleanArrayBlock m0 entry vals =
     (let m = incAccess m0 in
      if word_of_nat (length (m_b m)) <s Offset entry + ucast (Size entry)
      then (m, Returned (vals, Some ErrTSMClosed))
      else case slice_bytes (m_b m) (Offset entry + 4) (Offset entry + ucast (Size entry)) of
             None \<Rightarrow> (m, Panic)
           | Some bs \<Rightarrow> (m, Returned (DecodeBooleanArrayBlock bs vals)))"

text \<open>
  The payload of a block: the indices of the mapped region that the slice expression
  \<^verbatim>\<open>m.b[entry.Offset+4 : entry.Offset+int64(entry.Size)]\<close> denotes when it does not panic.
\<close>

definition payload_lo :: "IndexEntry \<Rightarrow> nat" where
  "payload_lo entry = nat (sint (Offset entry + 4))"

definition payload_hi :: "IndexEntry \<Rightarrow> nat" where
  "payload_hi entry = nat (sint (Offset entry + ucast (Size entry)))"

section \<open>Package buildtsi: rebuilding the index of one shard\<close>

text \<open>
  \<^verbatim>\<open>IndexShard\<close> and \<^verbatim>\<open>IndexTSMFile\<close> do their work through calls into the operating system
  (\<^verbatim>\<open>os.Stat\<close>, \<^verbatim>\<open>os.RemoveAll\<close>, \<^verbatim>\<open>ioutil.ReadDir\<close>, \<^verbatim>\<open>os.Open\<close>, \<^verbatim>\<open>os.Rename\<close>) and into the
  packages tsi1, tsm1 and models, none of which is part of the given sources. The model
  makes every such call visible as an \<open>event\<close> and threads the list of events so far
  (the trace) through the code; what a call answers is taken from an environment
  \<open>env\<close>, about which nothing is assumed. An interrupted run is a prefix of the trace.
\<close>

type_synonym path = string
type_synonym key = string
type_synonym Tags = "(string \<times> string) list"

text \<open>The two places that call \<^verbatim>\<open>CreateSeriesListIfNotExists\<close>.\<close>

datatype source = FromTSMFile path | FromCache

datatype event =
    LogInfo string
  | LogWarn string
  | Stat path
  | RemoveAll path
  | ReadDir path
  | IndexOpen path
  | OpenFile path
  | NewTSMReader path
  | ReaderClose path
  | FileClose path
  | CacheLoad "path list"
  | CreateSeriesListIfNotExists source "key list" "string list" "Tags list"
  | IndexCompact
  | IndexWait
  | IndexClose
  | Rename path path

text \<open>
  The environment. \<open>stat\<close>, \<open>removeAll\<close>, \<open>openFile\<close> and \<open>rename\<close> give the error of the
  system call (\<open>None\<close> is \<^verbatim>\<open>nil\<close>); \<open>readDir\<close> gives the names of the directory's entries;
  \<open>indexOpen p\<close> is \<^verbatim>\<open>Open\<close> of the index made by \<^verbatim>\<open>tsi1.NewIndex\<close> with \<^verbatim>\<open>WithPath(p)\<close>;
  \<open>newTSMReader p\<close> is \<^verbatim>\<open>tsm1.NewTSMReader\<close> on the opened file, a reader being given by
  its keys \<^verbatim>\<open>KeyAt(0)\<close>, ..., \<^verbatim>\<open>KeyAt(KeyCount()-1)\<close>; \<open>cacheLoad ps\<close> is \<^verbatim>\<open>loader.Load(cache)\<close>
  for the WAL files \<open>ps\<close>, a loaded cache being given by \<^verbatim>\<open>cache.Keys()\<close>;
  \<open>createSeries tr keys names tags\<close> is the error of \<^verbatim>\<open>CreateSeriesListIfNotExists\<close> when the
  events before the call are \<open>tr\<close> (the pipeline repeats this call, so its answer may
  depend on what happened before); \<open>indexClose\<close> is the error of the explicit
  \<^verbatim>\<open>tsiIndex.Close()\<close>. \<open>Join\<close> is \<^verbatim>\<open>filepath.Join\<close> on two elements. The last five fields
  are functions and constants of the packages tsm1 and models.
\<close>

record env =
  Join :: "path \<Rightarrow> string \<Rightarrow> path"
  stat :: "path \<Rightarrow> error option"
  removeAll :: "path \<Rightarrow> error option"
  readDir :: "path \<Rightarrow> error + string list"
  indexOpen :: "path \<Rightarrow> error option"
  openFile :: "path \<Rightarrow> error option"
  newTSMReader :: "path \<Rightarrow> error + key list"
  cacheLoad :: "path list \<Rightarrow> error + key list"
  createSeries :: "event list \<Rightarrow> key list \<Rightarrow> string list \<Rightarrow> Tags list \<Rightarrow> error option"
  indexClose :: "error option"
  rename :: "path \<Rightarrow> path \<Rightarrow> error option"
  SeriesAndFieldFromCompositeKey :: "key \<Rightarrow> key \<times> string"
  ParseKeyBytes :: "key \<Rightarrow> string \<times> Tags"
  ParseKeyBytesWithTags :: "key \<Rightarrow> Tags \<Rightarrow> string \<times> Tags"
  TSMFileExtension :: string
  WALFileExtension :: string

text \<open>
  \<^verbatim>\<open>os.IsNotExist\<close>: false on \<^verbatim>\<open>nil\<close>; otherwise the error, unwrapped once if it is a
  \<^verbatim>\<open>*PathError\<close>, is compared with \<^verbatim>\<open>ErrNotExist\<close> (which also stands for the errno
  \<^verbatim>\<open>ENOENT\<close>).
\<close>

fun underlyingError :: "error \<Rightarrow> error" where
  "underlyingError (PathError op p err) = err"
| "underlyingError err = err"

definition IsNotExist :: "error option \<Rightarrow> bool" where
  "IsNotExist err = (case err of None \<Rightarrow> False | Some e \<Rightarrow> underlyingError e = ErrNotExist)"

text \<open>
  \<^verbatim>\<open>filepath.Ext\<close>: the suffix from the last dot of the last path element, or the empty
  string. \<open>ext_scan\<close> walks from the end of the name, as the library's loop does.
\<close>

fun ext_scan :: "string \<Rightarrow> string \<Rightarrow> string" where
  "ext_scan [] acc = []"
| "ext_scan (c # cs) acc =
     (if c = CHR ''/'' then []
      else if c = CHR ''.'' then c # acc
      else ext_scan cs (c # acc))"

definition filepath_Ext :: "string \<Rightarrow> string" where
  "filepath_Ext p = ext_scan (rev p) []"

definition collectTSMFiles :: "env \<Rightarrow> path \<Rightarrow> event list \<Rightarrow> event list \<times> (error + path list)" where
  "collectTSMFiles env p tr0 =
     (let tr = tr0 @ [ReadDir p] in
      case readDir env p of
        Inl err \<Rightarrow> (tr, Inl err)
      | Inr fis \<Rightarrow>
          (tr, Inr (map (Join env p)
                     (filter (\<lambda>n. filepath_Ext n = ''.'' @ TSMFileExtension env) fis))))"

definition collectWALFiles :: "env \<Rightarrow> path \<Rightarrow> event list \<Rightarrow> event list \<times> (error + path list)" where
  "collectWALFiles env p tr0 =
     (if p = [] then (tr0, Inl ErrNotExist)
      else
        let tr1 = tr0 @ [Stat p];
            listing =
              (let tr2 = tr1 @ [ReadDir p] in
               case readDir env p of
                 Inl err \<Rightarrow> (tr2, Inl err)
               | Inr fis \<Rightarrow>
                   (tr2, Inr (map (Join env p)
                               (filter (\<lambda>n. filepath_Ext n = ''.'' @ WALFileExtension env) fis))))
        in case stat env p of
             None \<Rightarrow> listing
           | Some err \<Rightarrow> if IsNotExist (Some err) then (tr1, Inl err) else listing)"

text \<open>
  The loop of \<^verbatim>\<open>IndexTSMFile\<close> over \<^verbatim>\<open>i = 0, ..., r.KeyCount()-1\<close>, as a recursion over the
  keys still to come. Its state is \<^verbatim>\<open>keysBatch\<close>, \<^verbatim>\<open>namesBatch\<close>, \<^verbatim>\<open>tagsBatch\<close> and \<^verbatim>\<open>ti\<close>.
  \<^verbatim>\<open>tagsBatch[ti]\<close> panics when \<^verbatim>\<open>ti\<close> is not below the length of \<^verbatim>\<open>tagsBatch\<close>. An error of the
  insert call ends the loop with \<open>Inl\<close>; otherwise the loop ends with the state for the
  final flush.
\<close>

fun IndexTSMFile_loop ::
  "env \<Rightarrow> path \<Rightarrow> int \<Rightarrow> bool \<Rightarrow> key list \<Rightarrow> key list \<Rightarrow> string list \<Rightarrow> Tags list \<Rightarrow> nat
     \<Rightarrow> event list
     \<Rightarrow> event list \<times> (error + key list \<times> string list \<times> Tags list \<times> nat) outcome" where
  "IndexTSMFile_loop env p batchSize verboseLogging [] keysBatch namesBatch tagsBatch ti tr =
     (tr, Returned (Inr (keysBatch, namesBatch, tagsBatch, ti)))"
| "IndexTSMFile_loop env p batchSize verboseLogging (k # ks) keysBatch namesBatch tagsBatch ti tr =
     (let seriesKey = fst (SeriesAndFieldFromCompositeKey env k) in
      if length tagsBatch \<le> ti then (tr, Panic)
      else
        let parsed = ParseKeyBytesWithTags env seriesKey (tagsBatch ! ti);
            tagsBatch' = tagsBatch[ti := snd parsed];
            tr1 = (if verboseLogging then tr @ [LogInfo ''Series''] else tr);
            keysBatch' = keysBatch @ [seriesKey];
            namesBatch' = namesBatch @ [fst parsed];
            ti' = ti + 1
        in
          if int (length keysBatch') = batchSize
          then
            (let tr2 = tr1 @ [CreateSeriesListIfNotExists (FromTSMFile p)
                                keysBatch' namesBatch' (take ti' tagsBatch')] in
             case createSeries env tr1 keysBatch' namesBatch' (take ti' tagsBatch') of
               Some err \<Rightarrow> (tr2, Returned (Inl (ProblemCreatingSeries err)))
             | None \<Rightarrow>
                 IndexTSMFile_loop env p batchSize verboseLogging ks [] [] tagsBatch' 0 tr2)
          else
            IndexTSMFile_loop env p batchSize verboseLogging ks
              keysBatch' namesBatch' tagsBatch' ti' tr1)"

text \<open>
  \<^verbatim>\<open>IndexTSMFile\<close>. \<^verbatim>\<open>make\<close> panics on a negative size. The deferred \<^verbatim>\<open>r.Close()\<close> and
  \<^verbatim>\<open>f.Close()\<close> run on every way out after they were registered, also on a panic.
\<close>

definition IndexTSMFile ::
  "env \<Rightarrow> path \<Rightarrow> int \<Rightarrow> bool \<Rightarrow> event list \<Rightarrow> event list \<times> error option outcome" where
  "IndexTSMFile env p batchSize verboseLogging tr0 =
     (let tr1 = tr0 @ [OpenFile p] in
      case openFile env p of
        Some err \<Rightarrow> (tr1, Returned (Some err))
      | None \<Rightarrow>
          (let tr2 = tr1 @ [NewTSMReader p] in
           case newTSMReader env p of
             Inl err \<Rightarrow>
               (tr2 @ [LogWarn ''Unable to read, skipping'', FileClose p], Returned None)
           | Inr ks \<Rightarrow>
               if batchSize < 0 then (tr2 @ [ReaderClose p, FileClose p], Panic)
               else
                 (case IndexTSMFile_loop env p batchSize verboseLogging ks
                         [] [] (replicate (nat batchSize) []) 0 tr2 of
                    (tr3, Panic) \<Rightarrow> (tr3 @ [ReaderClose p, FileClose p], Panic)
                  | (tr3, Returned (Inl err)) \<Rightarrow>
                      (tr3 @ [ReaderClose p, FileClose p], Returned (Some err))
                  | (tr3, Returned (Inr (keysBatch, namesBatch, tagsBatch, ti))) \<Rightarrow>
                      if length keysBatch > 0
                      then
                        (let tr4 = tr3 @ [CreateSeriesListIfNotExists (FromTSMFile p)
                                            keysBatch namesBatch (take ti tagsBatch)] in
                         case createSeries env tr3 keysBatch namesBatch (take ti tagsBatch) of
                           Some err \<Rightarrow>
                             (tr4 @ [ReaderClose p, FileClose p],
                              Returned (Some (ProblemCreatingSeries err)))
                         | None \<Rightarrow> (tr4 @ [ReaderClose p, FileClose p], Returned None))
                      else (tr3 @ [ReaderClose p, FileClose p], Returned None))))"

text \<open>The loop of \<^verbatim>\<open>IndexShard\<close> over \<^verbatim>\<open>tsmPaths\<close>: the first error or panic ends it.\<close>

fun IndexShard_tsmLoop ::
  "env \<Rightarrow> int \<Rightarrow> bool \<Rightarrow> path list \<Rightarrow> event list \<Rightarrow> event list \<times> error option outcome" where
  "IndexShard_tsmLoop env batchSize verboseLogging [] tr = (tr, Returned None)"
| "IndexShard_tsmLoop env batchSize verboseLogging (p # ps) tr =
     (case IndexTSMFile env p batchSize verboseLogging (tr @ [LogInfo ''Processing tsm file'']) of
        (tr', Returned None) \<Rightarrow> IndexShard_tsmLoop env batchSize verboseLogging ps tr'
      | (tr', Returned (Some err)) \<Rightarrow> (tr', Returned (Some err))
      | (tr', Panic) \<Rightarrow> (tr', Panic))"

text \<open>The loop of \<^verbatim>\<open>IndexShard\<close> over \<^verbatim>\<open>cache.Keys()\<close>.\<close>

fun IndexShard_cacheLoop ::
  "env \<Rightarrow> int \<Rightarrow> bool \<Rightarrow> key list \<Rightarrow> key list \<Rightarrow> string list \<Rightarrow> Tags list \<Rightarrow> event list
     \<Rightarrow> event list \<times> (error + key list \<times> string list \<times> Tags list)" where
  "IndexShard_cacheLoop env batchSize verboseLogging [] keysBatch namesBatch tagsBatch tr =
     (tr, Inr (keysBatch, namesBatch, tagsBatch))"
| "IndexShard_cacheLoop env batchSize verboseLogging (k # ks) keysBatch namesBatch tagsBatch tr =
     (let seriesKey = fst (SeriesAndFieldFromCompositeKey env k);
          parsed = ParseKeyBytes env seriesKey;
          tr1 = (if verboseLogging then tr @ [LogInfo ''Series''] else tr);
          keysBatch' = keysBatch @ [seriesKey];
          namesBatch' = namesBatch @ [fst parsed];
          tagsBatch' = tagsBatch @ [snd parsed]
      in
        if int (length keysBatch') = batchSize
        then
          (let tr2 = tr1 @ [CreateSeriesListIfNotExists FromCache
                              keysBatch' namesBatch' tagsBatch'] in
           case createSeries env tr1 keysBatch' namesBatch' tagsBatch' of
             Some err \<Rightarrow> (tr2, Inl (ProblemCreatingSeries err))
           | None \<Rightarrow> IndexShard_cacheLoop env batchSize verboseLogging ks [] [] [] tr2)
        else
          IndexShard_cacheLoop env batchSize verboseLogging ks
            keysBatch' namesBatch' tagsBatch' tr1)"

text \<open>
  The \<^verbatim>\<open>else\<close> branch of \<^verbatim>\<open>IndexShard\<close> after \<^verbatim>\<open>collectWALFiles\<close> succeeded: load the cache
  from the WAL files, iterate over its keys, flush what remains.
\<close>

definition IndexShard_cache ::
  "env \<Rightarrow> path list \<Rightarrow> int \<Rightarrow> bool \<Rightarrow> event list \<Rightarrow> event list \<times> error option outcome" where
  "IndexShard_cache env walPaths batchSize verboseLogging tr0 =
     (let tr1 = tr0 @ [LogInfo ''Building cache from wal files'', CacheLoad walPaths] in
      case cacheLoad env walPaths of
        Inl err \<Rightarrow> (tr1, Returned (Some err))
      | Inr ks \<Rightarrow>
          (let tr2 = tr1 @ [LogInfo ''Iterating over cache''] in
           if batchSize < 0 then (tr2, Panic)
           else
             (case IndexShard_cacheLoop env batchSize verboseLogging ks [] [] [] tr2 of
                (tr3, Inl err) \<Rightarrow> (tr3, Returned (Some err))
              | (tr3, Inr (keysBatch, namesBatch, tagsBatch)) \<Rightarrow>
                  if length keysBatch > 0
                  then
                    (let tr4 = tr3 @ [CreateSeriesListIfNotExists FromCache
                                        keysBatch namesBatch tagsBatch] in
                     case createSeries env tr3 keysBatch namesBatch tagsBatch of
                       Some err \<Rightarrow> (tr4, Returned (Some (ProblemCreatingSeries err)))
                     | None \<Rightarrow> (tr4, Returned None))
                  else (tr3, Returned None))))"

text \<open>The end of \<^verbatim>\<open>IndexShard\<close>: compact, wait, close, rename.\<close>

definition IndexShard_finish ::
  "env \<Rightarrow> path \<Rightarrow> path \<Rightarrow> event list \<Rightarrow> event list \<times> error option outcome" where
  "IndexShard_finish env tmpPath indexPath tr0 =
     (let tr1 = tr0 @ [LogInfo ''compacting index'', IndexCompact, IndexWait,
                       LogInfo ''Closing tsi index'', IndexClose] in
      case indexClose env of
        Some err \<Rightarrow> (tr1, Returned (Some err))
      | None \<Rightarrow>
          (tr1 @ [LogInfo ''Moving tsi to permanent location'', Rename tmpPath indexPath],
           Returned (rename env tmpPath indexPath)))"

text \<open>
  The part of \<^verbatim>\<open>IndexShard\<close> that runs while the index is open, from
  \<^verbatim>\<open>collectTSMFiles\<close> to the \<^verbatim>\<open>return\<close> of the rename.
\<close>

definition IndexShard_opened ::
  "env \<Rightarrow> path \<Rightarrow> path \<Rightarrow> int \<Rightarrow> bool \<Rightarrow> path \<Rightarrow> path \<Rightarrow> event list
     \<Rightarrow> event list \<times> error option outcome" where
  "IndexShard_opened env dataDir walDir batchSize verboseLogging tmpPath indexPath tr0 =
     (case collectTSMFiles env dataDir tr0 of
        (tr1, Inl err) \<Rightarrow> (tr1, Returned (Some err))
      | (tr1, Inr tsmPaths) \<Rightarrow>
          (case IndexShard_tsmLoop env batchSize verboseLogging tsmPaths
                  (tr1 @ [LogInfo ''Iterating over tsm files'']) of
             (tr2, Panic) \<Rightarrow> (tr2, Panic)
           | (tr2, Returned (Some err)) \<Rightarrow> (tr2, Returned (Some err))
           | (tr2, Returned None) \<Rightarrow>
               (case collectWALFiles env walDir tr2 of
                  (tr3, Inl err) \<Rightarrow>
                    if \<not> IsNotExist (Some err) then (tr3, Returned (Some err))
                    else IndexShard_finish env tmpPath indexPath tr3
                | (tr3, Inr walPaths) \<Rightarrow>
                    (case IndexShard_cache env walPaths batchSize verboseLogging tr3 of
                       (tr4, Panic) \<Rightarrow> (tr4, Panic)
                     | (tr4, Returned (Some err)) \<Rightarrow> (tr4, Returned (Some err))
                     | (tr4, Returned None) \<Rightarrow> IndexShard_finish env tmpPath indexPath tr4))))"

text \<open>
  \<^verbatim>\<open>IndexShard\<close>. The series file, the log-file and cache sizes and the logger only
  configure the objects built and are not arguments of the model. The last event of a run
  that opened the index is the deferred \<^verbatim>\<open>tsiIndex.Close()\<close>.
\<close>

definition IndexShard ::
  "env \<Rightarrow> path \<Rightarrow> path \<Rightarrow> int \<Rightarrow> bool \<Rightarrow> event list \<Rightarrow> event list \<times> error option outcome" where
  "IndexShard env dataDir walDir batchSize verboseLogging tr0 =
     (let indexPath = Join env dataDir ''index'';
          tr1 = tr0 @ [LogInfo ''Rebuilding shard'', LogInfo ''Checking index path'',
                       Stat indexPath] in
      if \<not> IsNotExist (stat env indexPath)
      then (tr1 @ [LogInfo ''tsi1 index already exists, skipping''], Returned None)
      else
        let tmpPath = Join env dataDir ''.index'';
            tr2 = tr1 @ [LogInfo ''Opening shard'',
                         LogInfo ''Cleaning up partial index from previous run, if any'',
                         RemoveAll tmpPath] in
        case removeAll env tmpPath of
          Some err \<Rightarrow> (tr2, Returned (Some err))
        | None \<Rightarrow>
            (let tr3 = tr2 @ [LogInfo ''Opening tsi index in temporary location'',
                              IndexOpen tmpPath] in
             case indexOpen env tmpPath of
               Some err \<Rightarrow> (tr3, Returned (Some err))
             | None \<Rightarrow>
                 (case IndexShard_opened env dataDir walDir batchSize verboseLogging
                         tmpPath indexPath tr3 of
                    (tr4, r) \<Rightarrow> (tr4 @ [IndexClose], r))))"

section \<open>Notions used to state the properties\<close>

text \<open>
  What it means that a name and a tag set were parsed from a key, at each of the two
  call sites: the cache loop calls \<^verbatim>\<open>ParseKeyBytes\<close>, \<^verbatim>\<open>IndexTSMFile\<close> calls
  \<^verbatim>\<open>ParseKeyBytesWithTags\<close> with the slot of \<^verbatim>\<open>tagsBatch\<close> as buffer.
\<close>

definition parsed_from :: "env \<Rightarrow> source \<Rightarrow> key \<Rightarrow> string \<Rightarrow> Tags \<Rightarrow> bool" where
  "parsed_from env src k n t =
     (case src of
        FromCache \<Rightarrow> (n, t) = ParseKeyBytes env k
      | FromTSMFile p \<Rightarrow> (\<exists>buf. (n, t) = ParseKeyBytesWithTags env k buf))"

text \<open>
  An insert call is parallel when its three slices have one length, which is not zero,
  and the name and the tag set at each index were parsed from the key at that index.
  Every other event counts as parallel.
\<close>

fun parallel_call :: "env \<Rightarrow> event \<Rightarrow> bool" where
  "parallel_call env (CreateSeriesListIfNotExists src ks ns ts) =
     (ks \<noteq> [] \<and> length ns = length ks \<and> length ts = length ks
      \<and> (\<forall>i < length ks. parsed_from env src (ks ! i) (ns ! i) (ts ! i)))"
| "parallel_call env e = True"

text \<open>The state of the loop of \<^verbatim>\<open>IndexTSMFile\<close> between two iterations.\<close>

definition tsm_state_ok ::
  "env \<Rightarrow> path \<Rightarrow> key list \<Rightarrow> string list \<Rightarrow> Tags list \<Rightarrow> nat \<Rightarrow> bool" where
  "tsm_state_ok env p keysBatch namesBatch tagsBatch ti \<longleftrightarrow>
     length keysBatch = ti \<and> length namesBatch = ti \<and> ti \<le> length tagsBatch
     \<and> (\<forall>i < ti. parsed_from env (FromTSMFile p) (keysBatch ! i) (namesBatch ! i) (tagsBatch ! i))"

text \<open>The state of the loop over the cache keys between two iterations.\<close>

definition cache_state_ok :: "env \<Rightarrow> key list \<Rightarrow> string list \<Rightarrow> Tags list \<Rightarrow> bool" where
  "cache_state_ok env keysBatch namesBatch tagsBatch \<longleftrightarrow>
     length namesBatch = length keysBatch \<and> length tagsBatch = length keysBatch
     \<and> (\<forall>i < length keysBatch.
            parsed_from env FromCache (keysBatch ! i) (namesBatch ! i) (tagsBatch ! i))"

text \<open>
  The events of the two phases of a rebuild. The TSM phase lists the shard directory and
  runs \<^verbatim>\<open>IndexTSMFile\<close> on each file; the cache phase lists the WAL directory, loads the
  cache and inserts its keys.
\<close>

fun tsm_phase_event :: "env \<Rightarrow> event \<Rightarrow> bool" where
  "tsm_phase_event env (LogInfo s) = True"
| "tsm_phase_event env (LogWarn s) = True"
| "tsm_phase_event env (ReadDir p) = True"
| "tsm_phase_event env (OpenFile p) = True"
| "tsm_phase_event env (NewTSMReader p) = True"
| "tsm_phase_event env (ReaderClose p) = True"
| "tsm_phase_event env (FileClose p) = True"
| "tsm_phase_event env (CreateSeriesListIfNotExists (FromTSMFile p) ks ns ts) =
     parallel_call env (CreateSeriesListIfNotExists (FromTSMFile p) ks ns ts)"
| "tsm_phase_event env e = False"

fun cache_phase_event :: "env \<Rightarrow> event \<Rightarrow> bool" where
  "cache_phase_event env (LogInfo s) = True"
| "cache_phase_event env (Stat p) = True"
| "cache_phase_event env (ReadDir p) = True"
| "cache_phase_event env (CacheLoad ps) = True"
| "cache_phase_event env (CreateSeriesListIfNotExists FromCache ks ns ts) =
     parallel_call env (CreateSeriesListIfNotExists FromCache ks ns ts)"
| "cache_phase_event env e = False"

text \<open>The events up to the opening of the index at the temporary path.\<close>

definition opening_events :: "path \<Rightarrow> path \<Rightarrow> event list" where
  "opening_events indexPath tmpPath =
     [LogInfo ''Rebuilding shard'', LogInfo ''Checking index path'', Stat indexPath,
      LogInfo ''Opening shard'',
      LogInfo ''Cleaning up partial index from previous run, if any'', RemoveAll tmpPath,
      LogInfo ''Opening tsi index in temporary location'', IndexOpen tmpPath]"

subsection \<open>Concrete inputs\<close>

text \<open>
  An accessor with a region of eight bytes, the same accessor after its region is gone,
  an entry that reaches past the eight bytes, an entry inside them, and decoders that
  accept or reject every block.
\<close>

definition ex_open :: mmapAccessor where
  "ex_open = \<lparr>accessCount = 7, m_b = [1, 2, 3, 4, 5, 6, 7, 8]\<rparr>"

definition ex_closed :: mmapAccessor where
  "ex_closed = \<lparr>accessCount = 7, m_b = []\<rparr>"

definition ex_far_entry :: IndexEntry where
  "ex_far_entry = \<lparr>MinTime = 1000, MaxTime = 2000, Offset = 4, Size = 5\<rparr>"

definition ex_near_entry :: IndexEntry where
  "ex_near_entry = \<lparr>MinTime = 1000, MaxTime = 2000, Offset = 0, Size = 8\<rparr>"

definition ex_block_decoder :: "byte list \<Rightarrow> byte list \<Rightarrow> error + byte list" where
  "ex_block_decoder bs vals = Inr (vals @ bs)"

definition ex_array_decoder :: "byte list \<Rightarrow> byte list \<Rightarrow> byte list \<times> error option" where
  "ex_array_decoder bs vals = (vals @ bs, None)"

definition ex_corrupt_block :: "byte list \<Rightarrow> byte list \<Rightarrow> error + byte list" where
  "ex_corrupt_block bs vals = Inl (ErrorString ''corrupt block'')"

definition ex_corrupt_array :: "byte list \<Rightarrow> byte list \<Rightarrow> byte list \<times> error option" where
  "ex_corrupt_array bs vals = (vals, Some (ErrorString ''corrupt block''))"

text \<open>
  A shard directory \<open>d\<close> with no index yet, holding a TSM file with three keys, a file
  with the TSM extension that is not a TSM file, and a file of another kind; a WAL
  directory \<open>w\<close> with one file whose replay gives one key; a shard directory \<open>e\<close> that has
  an index; no directory \<open>gone\<close>; a directory \<open>locked\<close> that cannot be listed. Keys are
  split at the first \<open>#\<close>, names end at the first comma, tag sets are left empty.
\<close>

definition ex_env :: env where
  "ex_env = \<lparr>
     Join = (\<lambda>a b. a @ ''/'' @ b),
     stat = (\<lambda>p. if p = ''d/index'' \<or> p = ''gone''
                  then Some (PathError ''stat'' p ErrNotExist) else None),
     removeAll = (\<lambda>p. None),
     readDir = (\<lambda>p. if p = ''d'' then Inr [''1.tsm'', ''2.tsm'', ''notes.txt'']
                     else if p = ''w'' then Inr [''_1.wal'']
                     else Inl (PathError ''open'' p (ErrorString ''permission denied''))),
     indexOpen = (\<lambda>p. None),
     openFile = (\<lambda>p. None),
     newTSMReader = (\<lambda>p. if p = ''d/1.tsm''
                          then Inr [''cpu,host=a#value'', ''cpu,host=b#value'',
                                    ''cpu,host=c#value'']
                          else Inl (ErrorString ''bad magic'')),
     cacheLoad = (\<lambda>ps. Inr [''mem,host=a#value'']),
     createSeries = (\<lambda>tr ks ns ts. None),
     indexClose = None,
     rename = (\<lambda>a b. None),
     SeriesAndFieldFromCompositeKey =
       (\<lambda>k. (takeWhile (\<lambda>c. c \<noteq> CHR ''#'') k, drop 1 (dropWhile (\<lambda>c. c \<noteq> CHR ''#'') k))),
     ParseKeyBytes = (\<lambda>k. (takeWhile (\<lambda>c. c \<noteq> CHR '','') k, [])),
     ParseKeyBytesWithTags = (\<lambda>k t. (takeWhile (\<lambda>c. c \<noteq> CHR '','') k, [])),
     TSMFileExtension = ''tsm'',
     WALFileExtension = ''wal'' \<rparr>"

text \<open>The same, but the first TSM file cannot be opened.\<close>

definition ex_env_open_fails :: env where
  "ex_env_open_fails =
     ex_env\<lparr>openFile := (\<lambda>p. if p = ''d/1.tsm''
                              then Some (PathError ''open'' p (ErrorString ''permission denied''))
                              else None)\<rparr>"

text \<open>The trace of a rebuild of \<open>d\<close> in \<open>ex_env\<close> when the loop over the TSM files is done.\<close>

definition ex_tsm_trace :: "event list" where
  "ex_tsm_trace =
     [LogInfo ''Rebuilding shard'', LogInfo ''Checking index path'', Stat ''d/index'',
      LogInfo ''Opening shard'',
      LogInfo ''Cleaning up partial index from previous run, if any'',
      RemoveAll ''d/.index'',
      LogInfo ''Opening tsi index in temporary location'', IndexOpen ''d/.index'',
      ReadDir ''d'', LogInfo ''Iterating over tsm files'',
      LogInfo ''Processing tsm file'', OpenFile ''d/1.tsm'', NewTSMReader ''d/1.tsm'',
      CreateSeriesListIfNotExists (FromTSMFile ''d/1.tsm'')
        [''cpu,host=a'', ''cpu,host=b''] [''cpu'', ''cpu''] [[], []],
      CreateSeriesListIfNotExists (FromTSMFile ''d/1.tsm'') [''cpu,host=c''] [''cpu''] [[]],
      ReaderClose ''d/1.tsm'', FileClose ''d/1.tsm'',
      LogInfo ''Processing tsm file'', OpenFile ''d/2.tsm'', NewTSMReader ''d/2.tsm'',
      LogWarn ''Unable to read, skipping'', FileClose ''d/2.tsm'']"

text \<open>
  The events that \<^verbatim>\<open>IndexTSMFile\<close> makes for a TSM file, and the events that load the cache
  from the WAL and insert its keys.
\<close>

fun tsm_file_event :: "event \<Rightarrow> bool" where
  "tsm_file_event (OpenFile p) = True"
| "tsm_file_event (NewTSMReader p) = True"
| "tsm_file_event (ReaderClose p) = True"
| "tsm_file_event (FileClose p) = True"
| "tsm_file_event (CreateSeriesListIfNotExists (FromTSMFile p) ks ns ts) = True"
| "tsm_file_event e = False"

fun cache_event :: "event \<Rightarrow> bool" where
  "cache_event (CacheLoad ps) = True"
| "cache_event (CreateSeriesListIfNotExists FromCache ks ns ts) = True"
| "cache_event e = False"

text \<open>
  The batches of series keys that a trace passes to the index from one call site, in the
  order of the calls.
\<close>

fun batches :: "source \<Rightarrow> event list \<Rightarrow> key list list" where
  "batches src [] = []"
| "batches src (CreateSeriesListIfNotExists s ks ns ts # es) =
     (if s = src then ks # batches src es else batches src es)"
| "batches src (e # es) = batches src es"

text \<open>
  The specification's batching: a sequence cut into consecutive pieces of \<open>n\<close> elements,
  the last piece holding what remains.
\<close>

function chunks :: "nat \<Rightarrow> 'a list \<Rightarrow> 'a list list" where
  "chunks n xs = (if n = 0 \<or> xs = [] then [] else take n xs # chunks n (drop n xs))"
  by pat_completeness auto
termination
  by (relation "measure (\<lambda>(n, xs). length xs)") auto

section \<open>Properties of the typed block reads\<close>

lemma slice_bytes_Some:
  assumes "slice_bytes s lo hi = Some bs"
  shows "nat (sint lo) \<le> nat (sint hi) \<and> nat (sint hi) \<le> length s
         \<and> bs = map (nth s) [nat (sint lo)..<nat (sint hi)]"
proof -
  from assms have r: "0 \<le> sint lo" "sint lo \<le> sint hi" "sint hi \<le> int (length s)"
    and bs: "bs = take (nat (sint hi) - nat (sint lo)) (drop (nat (sint lo)) s)"
    by (auto simp: slice_bytes_def split: if_splits)
  from r have le: "nat (sint lo) \<le> nat (sint hi)" "nat (sint hi) \<le> length s"
    by linarith+
  have "take (nat (sint hi) - nat (sint lo)) (drop (nat (sint lo)) s)
        = map (nth s) [nat (sint lo)..<nat (sint hi)]"
    using le by (intro nth_equalityI) auto
  with le bs show ?thesis by simp
qed

text \<open>
  The guard of the code in terms of the integers: when the length of the region fits an
  \<^verbatim>\<open>int64\<close> (as every Go length does) and the sum of offset and size does not overflow,
  the guard fails exactly when the region is shorter than offset plus size.
\<close>

lemma sint_ucast_32_64: "sint (ucast (sz :: 32 word) :: 64 word) = uint sz"
proof -
  have "uint sz < 2 ^ 32"
    using uint_bounded [of sz] by simp
  then have "uint sz < 2 ^ 63"
    by simp
  moreover have "(0::int) \<le> uint sz"
    by simp
  ultimately have "signed_take_bit 63 (uint sz) = uint sz"
    by (intro signed_take_bit_int_eq_self) linarith+
  then show ?thesis
    by (simp add: signed_ucast_eq)
qed

lemma sint_len_64:
  assumes "n < 2 ^ 63"
  shows "sint (word_of_nat n :: 64 word) = int n"
proof -
  have "int n < 2 ^ 63"
    using assms by (metis of_nat_less_iff of_nat_numeral of_nat_power)
  then have "signed_take_bit 63 (int n) = int n"
    by (intro signed_take_bit_int_eq_self) auto
  then show ?thesis
    by (simp add: signed_of_nat)
qed

lemma guard_no_overflow:
  fixes off :: "64 word" and sz :: "32 word"
  assumes "n < 2 ^ 63" and "sint off + uint sz < 2 ^ 63"
  shows "(word_of_nat n <s off + ucast sz) \<longleftrightarrow> int n < sint off + uint sz"
proof -
  have lo: "- (2 ^ 63) \<le> sint off"
    using sint_ge [of off] by simp
  have nn: "0 \<le> uint sz"
    by simp
  have "sint (off + ucast sz) = signed_take_bit 63 (sint off + uint sz)"
    by (simp add: sint_word_ariths sint_ucast_32_64)
  also have "\<dots> = sint off + uint sz"
    using assms(2) lo nn by (intro signed_take_bit_int_eq_self) linarith+
  finally show ?thesis
    using sint_len_64 [OF assms(1)] by (simp add: word_sless_alt)
qed

text \<open>
  When the sum overflows, the guard lets the entry pass and the slice expression panics:
  the call neither returns an error nor reads a byte.
\<close>

lemma overflowing_entry_panics:
  "snd (readFloatBlock D \<lparr>accessCount = 0, m_b = [1, 2, 3, 4, 5, 6, 7, 8]\<rparr>
          \<lparr>MinTime = 0, MaxTime = 0, Offset = 0x7FFFFFFFFFFFFFFF, Size = 1\<rparr> vals) = Panic"
  by (simp add: readFloatBlock_def incAccess_def slice_bytes_def word_sless_alt)

lemma readFloatBlock_closed:
  assumes "word_of_nat (length (m_b m)) <s Offset entry + ucast (Size entry)"
  shows "readFloatBlock D m entry vals = (incAccess m, Returned (Inl ErrTSMClosed))"
  using assms by (simp add: readFloatBlock_def incAccess_def)

lemma readFloatBlock_in_region:
  "readFloatBlock D m entry vals = (incAccess m, Returned (Inl ErrTSMClosed))
   \<or> readFloatBlock D m entry vals = (incAccess m, Panic)
   \<or> (payload_lo entry \<le> payload_hi entry \<and> payload_hi entry \<le> length (m_b m)
       \<and> readFloatBlock D m entry vals =
           (incAccess m,
            Returned (D (map (nth (m_b m)) [payload_lo entry..<payload_hi entry]) vals)))"
proof (cases "word_of_nat (length (m_b m)) <s Offset entry + ucast (Size entry)")
  case True
  then show ?thesis by (simp add: readFloatBlock_closed)
next
  case False
  show ?thesis
  proof (cases "slice_bytes (m_b m) (Offset entry + 4) (Offset entry + ucast (Size entry))")
    case None
    with False show ?thesis by (simp add: readFloatBlock_def incAccess_def)
  next
    case (Some bs)
    from slice_bytes_Some [OF Some] have
      "payload_lo entry \<le> payload_hi entry" "payload_hi entry \<le> length (m_b m)"
      "bs = map (nth (m_b m)) [payload_lo entry..<payload_hi entry]"
      by (simp_all add: payload_lo_def payload_hi_def)
    moreover from False Some have
      "readFloatBlock D m entry vals = (incAccess m, Returned (D bs vals))"
      by (cases "D bs vals") (simp_all add: readFloatBlock_def incAccess_def)
    ultimately show ?thesis by simp
  qed
qed

lemma readFloatBlock_error_origin:
  assumes "snd (readFloatBlock D m entry vals) = Returned (Inl err)"
  shows "err = ErrTSMClosed \<or> (\<exists>bs. D bs vals = Inl err)"
  using assms readFloatBlock_in_region [of D m entry vals] by auto

lemma readFloatArrayBlock_closed:
  assumes "word_of_nat (length (m_b m)) <s Offset entry + ucast (Size entry)"
  shows "readFloatArrayBlock D m entry vals = (incAccess m, Returned (vals, Some ErrTSMClosed))"
  using assms by (simp add: readFloatArrayBlock_def incAccess_def)

lemma readFloatArrayBlock_in_region:
  "readFloatArrayBlock D m entry vals = (incAccess m, Returned (vals, Some ErrTSMClosed))
   \<or> readFloatArrayBlock D m entry vals = (incAccess m, Panic)
   \<or> (payload_lo entry \<le> payload_hi entry \<and> payload_hi entry \<le> length (m_b m)
       \<and> readFloatArrayBlock D m entry vals =
           (incAccess m,
            Returned (D (map (nth (m_b m)) [payload_lo entry..<payload_hi entry]) vals)))"
proof (cases "word_of_nat (length (m_b m)) <s Offset entry + ucast (Size entry)")
  case True
  then show ?thesis by (simp add: readFloatArrayBlock_closed)
next
  case False
  show ?thesis
  proof (cases "slice_bytes (m_b m) (Offset entry + 4) (Offset entry + ucast (Size entry))")
    case None
    with False show ?thesis by (simp add: readFloatArrayBlock_def incAccess_def)
  next
    case (Some bs)
    from slice_bytes_Some [OF Some] have
      "payload_lo entry \<le> payload_hi entry" "payload_hi entry \<le> length (m_b m)"
      "bs = map (nth (m_b m)) [payload_lo entry..<payload_hi entry]"
      by (simp_all add: payload_lo_def payload_hi_def)
    moreover from False Some have
      "readFloatArrayBlock D m entry vals = (incAccess m, Returned (D bs vals))"
      by (simp add: readFloatArrayBlock_def incAccess_def)
    ultimately show ?thesis by simp
  qed
qed

lemma readFloatArrayBlock_error_origin:
  assumes "snd (readFloatArrayBlock D m entry vals) = Returned (vals', Some err)"
  shows "err = ErrTSMClosed \<or> (\<exists>bs. D bs vals = (vals', Some err))"
  using assms readFloatArrayBlock_in_region [of D m entry vals] by auto

lemma readIntegerBlock_closed:
  assumes "word_of_nat (length (m_b m)) <s Offset entry + ucast (Size entry)"
  shows "readIntegerBlock D m entry vals = (incAccess m, Returned (Inl ErrTSMClosed))"
  using assms by (simp add: readIntegerBlock_def incAccess_def)

lemma readIntegerBlock_in_region:
  "readIntegerBlock D m entry vals = (incAccess m, Returned (Inl ErrTSMClosed))
   \<or> readIntegerBlock D m entry vals = (incAccess m, Panic)
   \<or> (payload_lo entry \<le> payload_hi entry \<and> payload_hi entry \<le> length (m_b m)
       \<and> readIntegerBlock D m entry vals =
           (incAccess m,
            Returned (D (map (nth (m_b m)) [payload_lo entry..<payload_hi entry]) vals)))"
proof (cases "word_of_nat (length (m_b m)) <s Offset entry + ucast (Size entry)")
  case True
  then show ?thesis by (simp add: readIntegerBlock_closed)
next
  case False
  show ?thesis
  proof (cases "slice_bytes (m_b m) (Offset entry + 4) (Offset entry + ucast (Size entry))")
    case None
    with False show ?thesis by (simp add: readIntegerBlock_def incAccess_def)
  next
    case (Some bs)
    from slice_bytes_Some [OF Some] have
      "payload_lo entry \<le> payload_hi entry" "payload_hi entry \<le> length (m_b m)"
      "bs = map (nth (m_b m)) [payload_lo entry..<payload_hi entry]"
      by (simp_all add: payload_lo_def payload_hi_def)
    moreover from False Some have
      "readIntegerBlock D m entry vals = (incAccess m, Returned (D bs vals))"
      by (cases "D bs vals") (simp_all add: readIntegerBlock_def incAccess_def)
    ultimately show ?thesis by simp
  qed
qed

lemma readIntegerBlock_error_origin:
  assumes "snd (readIntegerBlock D m entry vals) = Returned (Inl err)"
  shows "err = ErrTSMClosed \<or> (\<exists>bs. D bs vals = Inl err)"
  using assms readIntegerBlock_in_region [of D m entry vals] by auto

lemma readIntegerArrayBlock_closed:
  assumes "word_of_nat (length (m_b m)) <s Offset entry + ucast (Size entry)"
  shows "readIntegerArrayBlock D m entry vals = (incAccess m, Returned (vals, Some ErrTSMClosed))"
  using assms by (simp add: readIntegerArrayBlock_def incAccess_def)

lemma readIntegerArrayBlock_in_region:
  "readIntegerArrayBlock D m entry vals = (incAccess m, Returned (vals, Some ErrTSMClosed))
   \<or> readIntegerArrayBlock D m entry vals = (incAccess m, Panic)
   \<or> (payload_lo entry \<le> payload_hi entry \<and> payload_hi entry \<le> length (m_b m)
       \<and> readIntegerArrayBlock D m entry vals =
           (incAccess m,
            Returned (D (map (nth (m_b m)) [payload_lo entry..<payload_hi entry]) vals)))"
proof (cases "word_of_nat (length (m_b m)) <s Offset entry + ucast (Size entry)")
  case True
  then show ?thesis by (simp add: readIntegerArrayBlock_closed)
next
  case False
  show ?thesis
  proof (cases "slice_bytes (m_b m) (Offset entry + 4) (Offset entry + ucast (Size entry))")
    case None
    with False show ?thesis by (simp add: readIntegerArrayBlock_def incAccess_def)
  next
    case (Some bs)
    from slice_bytes_Some [OF Some] have
      "payload_lo entry \<le> payload_hi entry" "payload_hi entry \<le> length (m_b m)"
      "bs = map (nth (m_b m)) [payload_lo entry..<payload_hi entry]"
      by (simp_all add: payload_lo_def payload_hi_def)
    moreover from False Some have
      "readIntegerArrayBlock D m entry vals = (incAccess m, Returned (D bs vals))"
      by (simp add: readIntegerArrayBlock_def incAccess_def)
    ultimately show ?thesis by simp
  qed
qed

lemma readIntegerArrayBlock_error_origin:
  assumes "snd (readIntegerArrayBlock D m entry vals) = Returned (vals', Some err)"
  shows "err = ErrTSMClosed \<or> (\<exists>bs. D bs vals = (vals', Some err))"
  using assms readIntegerArrayBlock_in_region [of D m entry vals] by auto

lemma readUnsignedBlock_closed:
  assumes "word_of_nat (length (m_b m)) <s Offset entry + ucast (Size entry)"
  shows "readUnsignedBlock D m entry vals = (incAccess m, Returned (Inl ErrTSMClosed))"
  using assms by (simp add: readUnsignedBlock_def incAccess_def)

lemma readUnsignedBlock_in_region:
  "readUnsignedBlock D m entry vals = (incAccess m, Returned (Inl ErrTSMClosed))
   \<or> readUnsignedBlock D m entry vals = (incAccess m, Panic)
   \<or> (payload_lo entry \<le> payload_hi entry \<and> payload_hi entry \<le> length (m_b m)
       \<and> readUnsignedBlock D m entry vals =
           (incAccess m,
            Returned (D (map (nth (m_b m)) [payload_lo entry..<payload_hi entry]) vals)))"
proof (cases "word_of_nat (length (m_b m)) <s Offset entry + ucast (Size entry)")
  case True
  then show ?thesis by (simp add: readUnsignedBlock_closed)
next
  case False
  show ?thesis
  proof (cases "slice_bytes (m_b m) (Offset entry + 4) (Offset entry + ucast (Size entry))")
    case None
    with False show ?thesis by (simp add: readUnsignedBlock_def incAccess_def)
  next
    case (Some bs)
    from slice_bytes_Some [OF Some] have
      "payload_lo entry \<le> payload_hi entry" "payload_hi entry \<le> length (m_b m)"
      "bs = map (nth (m_b m)) [payload_lo entry..<payload_hi entry]"
      by (simp_all add: payload_lo_def payload_hi_def)
    moreover from False Some have
      "readUnsignedBlock D m entry vals = (incAccess m, Returned (D bs vals))"
      by (cases "D bs vals") (simp_all add: readUnsignedBlock_def incAccess_def)
    ultimately show ?thesis by simp
  qed
qed

lemma readUnsignedBlock_error_origin:
  assumes "snd (readUnsignedBlock D m entry vals) = Returned (Inl err)"
  shows "err = ErrTSMClosed \<or> (\<exists>bs. D bs vals = Inl err)"
  using assms readUnsignedBlock_in_region [of D m entry vals] by auto

lemma readUnsignedArrayBlock_closed:
  assumes "word_of_nat (length (m_b m)) <s Offset entry + ucast (Size entry)"
  shows "readUnsignedArrayBlock D m entry vals = (incAccess m, Returned (vals, Some ErrTSMClosed))"
  using assms by (simp add: readUnsignedArrayBlock_def incAccess_def)

lemma readUnsignedArrayBlock_in_region:
  "readUnsignedArrayBlock D m entry vals = (incAccess m, Returned (vals, Some ErrTSMClosed))
   \<or> readUnsignedArrayBlock D m entry vals = (incAccess m, Panic)
   \<or> (payload_lo entry \<le> payload_hi entry \<and> payload_hi entry \<le> length (m_b m)
       \<and> readUnsignedArrayBlock D m entry vals =
           (incAccess m,
            Returned (D (map (nth (m_b m)) [payload_lo entry..<payload_hi entry]) vals)))"
proof (cases "word_of_nat (length (m_b m)) <s Offset entry + ucast (Size entry)")
  case True
  then show ?thesis by (simp add: readUnsignedArrayBlock_closed)
next
  case False
  show ?thesis
  proof (cases "slice_bytes (m_b m) (Offset entry + 4) (Offset entry + ucast (Size entry))")
    case None
    with False show ?thesis by (simp add: readUnsignedArrayBlock_def incAccess_def)
  next
    case (Some bs)
    from slice_bytes_Some [OF Some] have
      "payload_lo entry \<le> payload_hi entry" "payload_hi entry \<le> length (m_b m)"
      "bs = map (nth (m_b m)) [payload_lo entry..<payload_hi entry]"
      by (simp_all add: payload_lo_def payload_hi_def)
    moreover from False Some have
      "readUnsignedArrayBlock D m entry vals = (incAccess m, Returned (D bs vals))"
      by (simp add: readUnsignedArrayBlock_def incAccess_def)
    ultimately show ?thesis by simp
  qed
qed

lemma readUnsignedArrayBlock_error_origin:
  assumes "snd (readUnsignedArrayBlock D m entry vals) = Returned (vals', Some err)"
  shows "err = ErrTSMClosed \<or> (\<exists>bs. D bs vals = (vals', Some err))"
  using assms readUnsignedArrayBlock_in_region [of D m entry vals] by auto

lemma readStringBlock_closed:
  assumes "word_of_nat (length (m_b m)) <s Offset entry + ucast (Size entry)"
  shows "readStringBlock D m entry vals = (incAccess m, Returned (Inl ErrTSMClosed))"
  using assms by (simp add: readStringBlock_def incAccess_def)

lemma readStringBlock_in_region:
  "readStringBlock D m entry vals = (incAccess m, Returned (Inl ErrTSMClosed))
   \<or> readStringBlock D m entry vals = (incAccess m, Panic)
   \<or> (payload_lo entry \<le> payload_hi entry \<and> payload_hi entry \<le> length (m_b m)
       \<and> readStringBlock D m entry vals =
           (incAccess m,
            Returned (D (map (nth (m_b m)) [payload_lo entry..<payload_hi entry]) vals)))"
proof (cases "word_of_nat (length (m_b m)) <s Offset entry + ucast (Size entry)")
  case True
  then show ?thesis by (simp add: readStringBlock_closed)
next
  case False
  show ?thesis
  proof (cases "slice_bytes (m_b m) (Offset entry + 4) (Offset entry + ucast (Size entry))")
    case None
    with False show ?thesis by (simp add: readStringBlock_def incAccess_def)
  next
    case (Some bs)
    from slice_bytes_Some [OF Some] have
      "payload_lo entry \<le> payload_hi entry" "payload_hi entry \<le> length (m_b m)"
      "bs = map (nth (m_b m)) [payload_lo entry..<payload_hi entry]"
      by (simp_all add: payload_lo_def payload_hi_def)
    moreover from False Some have
      "readStringBlock D m entry vals = (incAccess m, Returned (D bs vals))"
      by (cases "D bs vals") (simp_all add: readStringBlock_def incAccess_def)
    ultimately show ?thesis by simp
  qed
qed

lemma readStringBlock_error_origin:
  assumes "snd (readStringBlock D m entry vals) = Returned (Inl err)"
  shows "err = ErrTSMClosed \<or> (\<exists>bs. D bs vals = Inl err)"
  using assms readStringBlock_in_region [of D m entry vals] by auto

lemma readStringArrayBlock_closed:
  assumes "word_of_nat (length (m_b m)) <s Offset entry + ucast (Size entry)"
  shows "readStringArrayBlock D m entry vals = (incAccess m, Returned (vals, Some ErrTSMClosed))"
  using assms by (simp add: readStringArrayBlock_def incAccess_def)

lemma readStringArrayBlock_in_region:
  "readStringArrayBlock D m entry vals = (incAccess m, Returned (vals, Some ErrTSMClosed))
   \<or> readStringArrayBlock D m entry vals = (incAccess m, Panic)
   \<or> (payload_lo entry \<le> payload_hi entry \<and> payload_hi entry \<le> length (m_b m)
       \<and> readStringArrayBlock D m entry vals =
           (incAccess m,
            Returned (D (map (nth (m_b m)) [payload_lo entry..<payload_hi entry]) vals)))"
proof (cases "word_of_nat (length (m_b m)) <s Offset entry + ucast (Size entry)")
  case True
  then show ?thesis by (simp add: readStringArrayBlock_closed)
next
  case False
  show ?thesis
  proof (cases "slice_bytes (m_b m) (Offset entry + 4) (Offset entry + ucast (Size entry))")
    case None
    with False show ?thesis by (simp add: readStringArrayBlock_def incAccess_def)
  next
    case (Some bs)
    from slice_bytes_Some [OF Some] have
      "payload_lo entry \<le> payload_hi entry" "payload_hi entry \<le> length (m_b m)"
      "bs = map (nth (m_b m)) [payload_lo entry..<payload_hi entry]"
      by (simp_all add: payload_lo_def payload_hi_def)
    moreover from False Some have
      "readStringArrayBlock D m entry vals = (incAccess m, Returned (D bs vals))"
      by (simp add: readStringArrayBlock_def incAccess_def)
    ultimately show ?thesis by simp
  qed
qed

lemma readStringArrayBlock_error_origin:
  assumes "snd (readStringArrayBlock D m entry vals) = Returned (vals', Some err)"
  shows "err = ErrTSMClosed \<or> (\<exists>bs. D bs vals = (vals', Some err))"
  using assms readStringArrayBlock_in_region [of D m entry vals] by auto

lemma readBooleanBlock_closed:
  assumes "word_of_nat (length (m_b m)) <s Offset entry + ucast (Size entry)"
  shows "readBooleanBlock D m entry vals = (incAccess m, Returned (Inl ErrTSMClosed))"
  using assms by (simp add: readBooleanBlock_def incAccess_def)

lemma readBooleanBlock_in_region:
  "readBooleanBlock D m entry vals = (incAccess m, Returned (Inl ErrTSMClosed))
   \<or> readBooleanBlock D m entry vals = (incAccess m, Panic)
   \<or> (payload_lo entry \<le> payload_hi entry \<and> payload_hi entry \<le> length (m_b m)
       \<and> readBooleanBlock D m entry vals =
           (incAccess m,
            Returned (D (map (nth (m_b m)) [payload_lo entry..<payload_hi entry]) vals)))"
proof (cases "word_of_nat (length (m_b m)) <s Offset entry + ucast (Size entry)")
  case True
  then show ?thesis by (simp add: readBooleanBlock_closed)
next
  case False
  show ?thesis
  proof (cases "slice_bytes (m_b m) (Offset entry + 4) (Offset entry + ucast (Size entry))")
    case None
    with False show ?thesis by (simp add: readBooleanBlock_def incAccess_def)
  next
    case (Some bs)
    from slice_bytes_Some [OF Some] have
      "payload_lo entry \<le> payload_hi entry" "payload_hi entry \<le> length (m_b m)"
      "bs = map (nth (m_b m)) [payload_lo entry..<payload_hi entry]"
      by (simp_all add: payload_lo_def payload_hi_def)
    moreover from False Some have
      "readBooleanBlock D m entry vals = (incAccess m, Returned (D bs vals))"
      by (cases "D bs vals") (simp_all add: readBooleanBlock_def incAccess_def)
    ultimately show ?thesis by simp
  qed
qed

lemma readBooleanBlock_error_origin:
  assumes "snd (readBooleanBlock D m entry vals) = Returned (Inl err)"
  shows "err = ErrTSMClosed \<or> (\<exists>bs. D bs vals = Inl err)"
  using assms readBooleanBlock_in_region [of D m entry vals] by auto

lemma readBooleanArrayBlock_closed:
  assumes "word_of_nat (length (m_b m)) <s Offset entry + ucast (Size entry)"
  shows "readBooleanArrayBlock D m entry vals = (incAccess m, Returned (vals, Some ErrTSMClosed))"
  using assms by (simp add: readBooleanArrayBlock_def incAccess_def)

lemma readBooleanArrayBlock_in_region:
  "readBooleanArrayBlock D m entry vals = (incAccess m, Returned (vals, Some ErrTSMClosed))
   \<or> readBooleanArrayBlock D m entry vals = (incAccess m, Panic)
   \<or> (payload_lo entry \<le> payload_hi entry \<and> payload_hi entry \<le> length (m_b m)
       \<and> readBooleanArrayBlock D m entry vals =
           (incAccess m,
            Returned (D (map (nth (m_b m)) [payload_lo entry..<payload_hi entry]) vals)))"
proof (cases "word_of_nat (length (m_b m)) <s Offset entry + ucast (Size entry)")
  case True
  then show ?thesis by (simp add: readBooleanArrayBlock_closed)
next
  case False
  show ?thesis
  proof (cases "slice_bytes (m_b m) (Offset entry + 4) (Offset entry + ucast (Size entry))")
    case None
    with False show ?thesis by (simp add: readBooleanArrayBlock_def incAccess_def)
  next
    case (Some bs)
    from slice_bytes_Some [OF Some] have
      "payload_lo entry \<le> payload_hi entry" "payload_hi entry \<le> length (m_b m)"
      "bs = map (nth (m_b m)) [payload_lo entry..<payload_hi entry]"
      by (simp_all add: payload_lo_def payload_hi_def)
    moreover from False Some have
      "readBooleanArrayBlock D m entry vals = (incAccess m, Returned (D bs vals))"
      by (simp add: readBooleanArrayBlock_def incAccess_def)
    ultimately show ?thesis by simp
  qed
qed

lemma readBooleanArrayBlock_error_origin:
  assumes "snd (readBooleanArrayBlock D m entry vals) = Returned (vals', Some err)"
  shows "err = ErrTSMClosed \<or> (\<exists>bs. D bs vals = (vals', Some err))"
  using assms readBooleanArrayBlock_in_region [of D m entry vals] by auto

text \<open>
  Claim C1. Each of the ten typed block reads compares the length of the mapped region
  with \<^verbatim>\<open>entry.Offset + int64(entry.Size)\<close> before anything else is done with the region.
  Whenever the comparison finds the region too short, the call returns \<^verbatim>\<open>ErrTSMClosed\<close>
  (with the access counter incremented and, for the array variants, the caller's array
  unchanged). The result is then the same for every decoder and for every content of the
  region: the decoder is not called and no byte of the region is read. The sum is the
  \<^verbatim>\<open>int64\<close> sum of the code; \<open>guard_no_overflow\<close> shows that it is the sum of the integers
  whenever that fits into an \<^verbatim>\<open>int64\<close>, and the lemmas \<open>read...Block_in_region\<close> show that a
  call that does reach its decoder hands it bytes at indices below the length of the
  region only.
\<close>

theorem read_block_bounds_check:
  assumes "word_of_nat (length (m_b m)) <s Offset entry + ucast (Size entry)"
  shows "readFloatBlock DF m entry vf = (incAccess m, Returned (Inl ErrTSMClosed))
       \<and> readFloatArrayBlock DFa m entry af =
           (incAccess m, Returned (af, Some ErrTSMClosed))
       \<and> readIntegerBlock DI m entry vi = (incAccess m, Returned (Inl ErrTSMClosed))
       \<and> readIntegerArrayBlock DIa m entry ai =
           (incAccess m, Returned (ai, Some ErrTSMClosed))
       \<and> readUnsignedBlock DU m entry vu = (incAccess m, Returned (Inl ErrTSMClosed))
       \<and> readUnsignedArrayBlock DUa m entry au =
           (incAccess m, Returned (au, Some ErrTSMClosed))
       \<and> readStringBlock DS m entry vs = (incAccess m, Returned (Inl ErrTSMClosed))
       \<and> readStringArrayBlock DSa m entry as =
           (incAccess m, Returned (as, Some ErrTSMClosed))
       \<and> readBooleanBlock DB m entry vb = (incAccess m, Returned (Inl ErrTSMClosed))
       \<and> readBooleanArrayBlock DBa m entry ab =
           (incAccess m, Returned (ab, Some ErrTSMClosed))"
  using assms
  by (simp add: readFloatBlock_closed readFloatArrayBlock_closed readIntegerBlock_closed readIntegerArrayBlock_closed readUnsignedBlock_closed readUnsignedArrayBlock_closed readStringBlock_closed readStringArrayBlock_closed readBooleanBlock_closed readBooleanArrayBlock_closed)

theorem read_block_bounds_check_witness:
  "(word_of_nat (length (m_b ex_open)) :: 64 word)
      <s Offset ex_far_entry + ucast (Size ex_far_entry)
   \<and> readFloatBlock ex_block_decoder ex_open ex_far_entry [0]
       = (incAccess ex_open, Returned (Inl ErrTSMClosed))
   \<and> readFloatArrayBlock ex_array_decoder ex_open ex_far_entry [0]
       = (incAccess ex_open, Returned ([0], Some ErrTSMClosed))
   \<and> readIntegerBlock ex_block_decoder ex_open ex_far_entry [0]
       = (incAccess ex_open, Returned (Inl ErrTSMClosed))
   \<and> readIntegerArrayBlock ex_array_decoder ex_open ex_far_entry [0]
       = (incAccess ex_open, Returned ([0], Some ErrTSMClosed))
   \<and> readUnsignedBlock ex_block_decoder ex_open ex_far_entry [0]
       = (incAccess ex_open, Returned (Inl ErrTSMClosed))
   \<and> readUnsignedArrayBlock ex_array_decoder ex_open ex_far_entry [0]
       = (incAccess ex_open, Returned ([0], Some ErrTSMClosed))
   \<and> readStringBlock ex_block_decoder ex_open ex_far_entry [0]
       = (incAccess ex_open, Returned (Inl ErrTSMClosed))
   \<and> readStringArrayBlock ex_array_decoder ex_open ex_far_entry [0]
       = (incAccess ex_open, Returned ([0], Some ErrTSMClosed))
   \<and> readBooleanBlock ex_block_decoder ex_open ex_far_entry [0]
       = (incAccess ex_open, Returned (Inl ErrTSMClosed))
   \<and> readBooleanArrayBlock ex_array_decoder ex_open ex_far_entry [0]
       = (incAccess ex_open, Returned ([0], Some ErrTSMClosed))"
proof -
  have g: "(word_of_nat (length (m_b ex_open)) :: 64 word)
      <s Offset ex_far_entry + ucast (Size ex_far_entry)"
    by (simp add: ex_open_def ex_far_entry_def word_sless_alt)
  show ?thesis
    by (rule conjI, rule g, rule read_block_bounds_check [OF g])
qed

text \<open>
  Claim C9. The error of a failed bounds check is the one value \<^verbatim>\<open>ErrTSMClosed\<close>, both for
  an accessor whose region is empty (as after a close) and for an accessor with a
  non-empty region that is handed an entry reaching past it: the two calls return the
  same error. Moreover every error that a typed block read returns is \<^verbatim>\<open>ErrTSMClosed\<close> or
  an error that the decoder returned for some bytes; the accessor produces no other error
  value of its own, in particular none that tells an entry out of range from a closed
  accessor.
\<close>

theorem bounds_error_is_ErrTSMClosed:
  assumes "m_b mc = []" and "word_of_nat (length (m_b mc)) <s Offset ec + ucast (Size ec)"
    and "m_b mo \<noteq> []" and "word_of_nat (length (m_b mo)) <s Offset eo + ucast (Size eo)"
  shows "snd (readFloatBlock DF mc ec vf) = Returned (Inl ErrTSMClosed)
       \<and> snd (readFloatBlock DF mo eo vf) = Returned (Inl ErrTSMClosed)
       \<and> snd (readFloatArrayBlock DFa mc ec af) = Returned (af, Some ErrTSMClosed)
       \<and> snd (readFloatArrayBlock DFa mo eo af) = Returned (af, Some ErrTSMClosed)
       \<and> snd (readIntegerBlock DI mc ec vi) = Returned (Inl ErrTSMClosed)
       \<and> snd (readIntegerBlock DI mo eo vi) = Returned (Inl ErrTSMClosed)
       \<and> snd (readIntegerArrayBlock DIa mc ec ai) = Returned (ai, Some ErrTSMClosed)
       \<and> snd (readIntegerArrayBlock DIa mo eo ai) = Returned (ai, Some ErrTSMClosed)
       \<and> snd (readUnsignedBlock DU mc ec vu) = Returned (Inl ErrTSMClosed)
       \<and> snd (readUnsignedBlock DU mo eo vu) = Returned (Inl ErrTSMClosed)
       \<and> snd (readUnsignedArrayBlock DUa mc ec au) = Returned (au, Some ErrTSMClosed)
       \<and> snd (readUnsignedArrayBlock DUa mo eo au) = Returned (au, Some ErrTSMClosed)
       \<and> snd (readStringBlock DS mc ec vs) = Returned (Inl ErrTSMClosed)
       \<and> snd (readStringBlock DS mo eo vs) = Returned (Inl ErrTSMClosed)
       \<and> snd (readStringArrayBlock DSa mc ec as) = Returned (as, Some ErrTSMClosed)
       \<and> snd (readStringArrayBlock DSa mo eo as) = Returned (as, Some ErrTSMClosed)
       \<and> snd (readBooleanBlock DB mc ec vb) = Returned (Inl ErrTSMClosed)
       \<and> snd (readBooleanBlock DB mo eo vb) = Returned (Inl ErrTSMClosed)
       \<and> snd (readBooleanArrayBlock DBa mc ec ab) = Returned (ab, Some ErrTSMClosed)
       \<and> snd (readBooleanArrayBlock DBa mo eo ab) = Returned (ab, Some ErrTSMClosed)
       \<and> (snd (readFloatBlock DF m entry vf) = Returned (Inl err)
            \<longrightarrow> err = ErrTSMClosed \<or> (\<exists>bs. DF bs vf = Inl err))
       \<and> (snd (readFloatArrayBlock DFa m entry af) = Returned (af', Some err)
            \<longrightarrow> err = ErrTSMClosed \<or> (\<exists>bs. DFa bs af = (af', Some err)))
       \<and> (snd (readIntegerBlock DI m entry vi) = Returned (Inl err)
            \<longrightarrow> err = ErrTSMClosed \<or> (\<exists>bs. DI bs vi = Inl err))
       \<and> (snd (readIntegerArrayBlock DIa m entry ai) = Returned (ai', Some err)
            \<longrightarrow> err = ErrTSMClosed \<or> (\<exists>bs. DIa bs ai = (ai', Some err)))
       \<and> (snd (readUnsignedBlock DU m entry vu) = Returned (Inl err)
            \<longrightarrow> err = ErrTSMClosed \<or> (\<exists>bs. DU bs vu = Inl err))
       \<and> (snd (readUnsignedArrayBlock DUa m entry au) = Returned (au', Some err)
            \<longrightarrow> err = ErrTSMClosed \<or> (\<exists>bs. DUa bs au = (au', Some err)))
       \<and> (snd (readStringBlock DS m entry vs) = Returned (Inl err)
            \<longrightarrow> err = ErrTSMClosed \<or> (\<exists>bs. DS bs vs = Inl err))
       \<and> (snd (readStringArrayBlock DSa m entry as) = Returned (as', Some err)
            \<longrightarrow> err = ErrTSMClosed \<or> (\<exists>bs. DSa bs as = (as', Some err)))
       \<and> (snd (readBooleanBlock DB m entry vb) = Returned (Inl err)
            \<longrightarrow> err = ErrTSMClosed \<or> (\<exists>bs. DB bs vb = Inl err))
       \<and> (snd (readBooleanArrayBlock DBa m entry ab) = Returned (ab', Some err)
            \<longrightarrow> err = ErrTSMClosed \<or> (\<exists>bs. DBa bs ab = (ab', Some err)))"
  using assms
    readFloatBlock_error_origin [of DF m entry vf err]
    readFloatArrayBlock_error_origin [of DFa m entry af "af'" err]
    readIntegerBlock_error_origin [of DI m entry vi err]
    readIntegerArrayBlock_error_origin [of DIa m entry ai "ai'" err]
    readUnsignedBlock_error_origin [of DU m entry vu err]
    readUnsignedArrayBlock_error_origin [of DUa m entry au "au'" err]
    readStringBlock_error_origin [of DS m entry vs err]
    readStringArrayBlock_error_origin [of DSa m entry as "as'" err]
    readBooleanBlock_error_origin [of DB m entry vb err]
    readBooleanArrayBlock_error_origin [of DBa m entry ab "ab'" err]
  by (simp add: readFloatBlock_closed readFloatArrayBlock_closed readIntegerBlock_closed readIntegerArrayBlock_closed readUnsignedBlock_closed readUnsignedArrayBlock_closed readStringBlock_closed readStringArrayBlock_closed readBooleanBlock_closed readBooleanArrayBlock_closed)

theorem bounds_error_is_ErrTSMClosed_witness:
  "(m_b ex_closed = []
     \<and> (word_of_nat (length (m_b ex_closed)) :: 64 word)
       <s Offset ex_far_entry + ucast (Size ex_far_entry)
     \<and> m_b ex_open \<noteq> []
     \<and> (word_of_nat (length (m_b ex_open)) :: 64 word)
       <s Offset ex_far_entry + ucast (Size ex_far_entry))
   \<and> (snd (readFloatBlock ex_corrupt_block ex_open ex_near_entry [0]) = Returned (Inl (ErrorString ''corrupt block''))
     \<and> snd (readFloatArrayBlock ex_corrupt_array ex_open ex_near_entry [0])
       = Returned ([0], Some (ErrorString ''corrupt block''))
     \<and> snd (readIntegerBlock ex_corrupt_block ex_open ex_near_entry [0]) = Returned (Inl (ErrorString ''corrupt block''))
     \<and> snd (readIntegerArrayBlock ex_corrupt_array ex_open ex_near_entry [0])
       = Returned ([0], Some (ErrorString ''corrupt block''))
     \<and> snd (readUnsignedBlock ex_corrupt_block ex_open ex_near_entry [0]) = Returned (Inl (ErrorString ''corrupt block''))
     \<and> snd (readUnsignedArrayBlock ex_corrupt_array ex_open ex_near_entry [0])
       = Returned ([0], Some (ErrorString ''corrupt block''))
     \<and> snd (readStringBlock ex_corrupt_block ex_open ex_near_entry [0]) = Returned (Inl (ErrorString ''corrupt block''))
     \<and> snd (readStringArrayBlock ex_corrupt_array ex_open ex_near_entry [0])
       = Returned ([0], Some (ErrorString ''corrupt block''))
     \<and> snd (readBooleanBlock ex_corrupt_block ex_open ex_near_entry [0]) = Returned (Inl (ErrorString ''corrupt block''))
     \<and> snd (readBooleanArrayBlock ex_corrupt_array ex_open ex_near_entry [0])
       = Returned ([0], Some (ErrorString ''corrupt block'')))
   \<and> (snd (readFloatBlock ex_corrupt_block ex_closed ex_far_entry [0]) = Returned (Inl ErrTSMClosed)
     \<and> snd (readFloatBlock ex_corrupt_block ex_open ex_far_entry [0]) = Returned (Inl ErrTSMClosed)
     \<and> snd (readFloatArrayBlock ex_corrupt_array ex_closed ex_far_entry [0])
       = Returned ([0], Some ErrTSMClosed)
     \<and> snd (readFloatArrayBlock ex_corrupt_array ex_open ex_far_entry [0])
       = Returned ([0], Some ErrTSMClosed)
     \<and> snd (readIntegerBlock ex_corrupt_block ex_closed ex_far_entry [0]) = Returned (Inl ErrTSMClosed)
     \<and> snd (readIntegerBlock ex_corrupt_block ex_open ex_far_entry [0]) = Returned (Inl ErrTSMClosed)
     \<and> snd (readIntegerArrayBlock ex_corrupt_array ex_closed ex_far_entry [0])
       = Returned ([0], Some ErrTSMClosed)
     \<and> snd (readIntegerArrayBlock ex_corrupt_array ex_open ex_far_entry [0])
       = Returned ([0], Some ErrTSMClosed)
     \<and> snd (readUnsignedBlock ex_corrupt_block ex_closed ex_far_entry [0]) = Returned (Inl ErrTSMClosed)
     \<and> snd (readUnsignedBlock ex_corrupt_block ex_open ex_far_entry [0]) = Returned (Inl ErrTSMClosed)
     \<and> snd (readUnsignedArrayBlock ex_corrupt_array ex_closed ex_far_entry [0])
       = Returned ([0], Some ErrTSMClosed)
     \<and> snd (readUnsignedArrayBlock ex_corrupt_array ex_open ex_far_entry [0])
       = Returned ([0], Some ErrTSMClosed)
     \<and> snd (readStringBlock ex_corrupt_block ex_closed ex_far_entry [0]) = Returned (Inl ErrTSMClosed)
     \<and> snd (readStringBlock ex_corrupt_block ex_open ex_far_entry [0]) = Returned (Inl ErrTSMClosed)
     \<and> snd (readStringArrayBlock ex_corrupt_array ex_closed ex_far_entry [0])
       = Returned ([0], Some ErrTSMClosed)
     \<and> snd (readStringArrayBlock ex_corrupt_array ex_open ex_far_entry [0])
       = Returned ([0], Some ErrTSMClosed)
     \<and> snd (readBooleanBlock ex_corrupt_block ex_closed ex_far_entry [0]) = Returned (Inl ErrTSMClosed)
     \<and> snd (readBooleanBlock ex_corrupt_block ex_open ex_far_entry [0]) = Returned (Inl ErrTSMClosed)
     \<and> snd (readBooleanArrayBlock ex_corrupt_array ex_closed ex_far_entry [0])
       = Returned ([0], Some ErrTSMClosed)
     \<and> snd (readBooleanArrayBlock ex_corrupt_array ex_open ex_far_entry [0])
       = Returned ([0], Some ErrTSMClosed)
     \<and> (ErrorString ''corrupt block'' = ErrTSMClosed
        \<or> (\<exists>bs. ex_corrupt_block bs [0] = Inl (ErrorString ''corrupt block'')))
     \<and> (ErrorString ''corrupt block'' = ErrTSMClosed
        \<or> (\<exists>bs. ex_corrupt_array bs [0] = ([0], Some (ErrorString ''corrupt block'')))))"
  (is "?H \<and> ?P \<and> ?C")
proof -
  have h1: "m_b ex_closed = []"
    by (simp add: ex_closed_def)
  have h2: "(word_of_nat (length (m_b ex_closed)) :: 64 word)
       <s Offset ex_far_entry + ucast (Size ex_far_entry)"
    by (simp add: ex_closed_def ex_far_entry_def word_sless_alt)
  have h3: "m_b ex_open \<noteq> []"
    by (simp add: ex_open_def)
  have h4: "(word_of_nat (length (m_b ex_open)) :: 64 word)
       <s Offset ex_far_entry + ucast (Size ex_far_entry)"
    by (simp add: ex_open_def ex_far_entry_def word_sless_alt)
  have slice: "slice_bytes (m_b (incAccess ex_open)) (Offset ex_near_entry + 4)
                 (Offset ex_near_entry + ucast (Size ex_near_entry)) = Some [5, 6, 7, 8]"
    by (simp add: slice_bytes_def incAccess_def ex_open_def ex_near_entry_def)
  have guard: "\<not> (word_of_nat (length (m_b (incAccess ex_open))) :: 64 word)
                   <s Offset ex_near_entry + ucast (Size ex_near_entry)"
    by (simp add: incAccess_def ex_open_def ex_near_entry_def word_sless_alt)
  have prem: ?P
    using slice guard
    by (simp add: readFloatBlock_def readFloatArrayBlock_def readIntegerBlock_def readIntegerArrayBlock_def readUnsignedBlock_def readUnsignedArrayBlock_def readStringBlock_def readStringArrayBlock_def readBooleanBlock_def readBooleanArrayBlock_def
          Let_def ex_corrupt_block_def ex_corrupt_array_def)
  have hyps: ?H
    using h1 h2 h3 h4 by (intro conjI)
  note concl = bounds_error_is_ErrTSMClosed [OF h1 h2 h3 h4,
      where m = ex_open and entry = ex_near_entry and err = "ErrorString ''corrupt block''"
          and DF = ex_corrupt_block and DFa = ex_corrupt_array
          and vf = "[0]" and af = "[0]" and af' = "[0]"
          and DI = ex_corrupt_block and DIa = ex_corrupt_array
          and vi = "[0]" and ai = "[0]" and ai' = "[0]"
          and DU = ex_corrupt_block and DUa = ex_corrupt_array
          and vu = "[0]" and au = "[0]" and au' = "[0]"
          and DS = ex_corrupt_block and DSa = ex_corrupt_array
          and vs = "[0]" and as = "[0]" and as' = "[0]"
          and DB = ex_corrupt_block and DBa = ex_corrupt_array
          and vb = "[0]" and ab = "[0]" and ab' = "[0]"]
  have c: ?C
    using prem concl by simp
  show ?thesis
    by (rule conjI [OF hyps conjI [OF prem c]])
qed

section \<open>Properties of the rebuild of a shard\<close>

subsection \<open>The shape of a trace\<close>

declare tsm_phase_event.simps [simp del]
declare cache_phase_event.simps [simp del]

lemma tsm_phase_event_simple [simp]:
  "tsm_phase_event env (LogInfo s)" "tsm_phase_event env (LogWarn s)"
  "tsm_phase_event env (ReadDir p)" "tsm_phase_event env (OpenFile p)"
  "tsm_phase_event env (NewTSMReader p)" "tsm_phase_event env (ReaderClose p)"
  "tsm_phase_event env (FileClose p)"
  by (simp_all add: tsm_phase_event.simps)

lemma cache_phase_event_simple [simp]:
  "cache_phase_event env (LogInfo s)" "cache_phase_event env (Stat p)"
  "cache_phase_event env (ReadDir p)" "cache_phase_event env (CacheLoad ps)"
  by (simp_all add: cache_phase_event.simps)

lemma tsm_state_ok_step:
  assumes "tsm_state_ok env p keysBatch namesBatch tagsBatch ti" and "ti < length tagsBatch"
  shows "tsm_state_ok env p (keysBatch @ [k])
           (namesBatch @ [fst (ParseKeyBytesWithTags env k (tagsBatch ! ti))])
           (tagsBatch[ti := snd (ParseKeyBytesWithTags env k (tagsBatch ! ti))]) (Suc ti)"
  using assms
  by (auto simp: tsm_state_ok_def parsed_from_def nth_append less_Suc_eq nth_list_update)

lemma tsm_state_ok_flush:
  assumes "tsm_state_ok env p keysBatch namesBatch tagsBatch ti" and "0 < ti"
  shows "tsm_phase_event env
           (CreateSeriesListIfNotExists (FromTSMFile p) keysBatch namesBatch (take ti tagsBatch))"
  using assms by (auto simp: tsm_state_ok_def tsm_phase_event.simps)

lemma tsm_state_ok_reset: "tsm_state_ok env p [] [] tagsBatch 0"
  by (simp add: tsm_state_ok_def)

text \<open>
  The loop of \<^verbatim>\<open>IndexTSMFile\<close> extends the trace by events of the TSM phase and keeps its
  state well formed.
\<close>

lemma IndexTSMFile_loop_events:
  assumes "tsm_state_ok env p keysBatch namesBatch tagsBatch ti"
  shows "\<exists>ext. fst (IndexTSMFile_loop env p b v ks keysBatch namesBatch tagsBatch ti tr) = tr @ ext
           \<and> list_all (tsm_phase_event env) ext
           \<and> (\<forall>kb nb tb ti'.
                 snd (IndexTSMFile_loop env p b v ks keysBatch namesBatch tagsBatch ti tr)
                   = Returned (Inr (kb, nb, tb, ti')) \<longrightarrow> tsm_state_ok env p kb nb tb ti')"
  using assms
proof (induction ks arbitrary: keysBatch namesBatch tagsBatch ti tr)
  case Nil
  then show ?case by simp
next
  case (Cons k ks)
  let ?sk = "fst (SeriesAndFieldFromCompositeKey env k)"
  show ?case
  proof (cases "length tagsBatch \<le> ti")
    case True
    then show ?thesis by simp
  next
    case False
    then have lt: "ti < length tagsBatch" by simp
    let ?pr = "ParseKeyBytesWithTags env ?sk (tagsBatch ! ti)"
    let ?kb = "keysBatch @ [?sk]" and ?nb = "namesBatch @ [fst ?pr]"
    let ?tb = "tagsBatch[ti := snd ?pr]"
    let ?tr1 = "if v then tr @ [LogInfo ''Series''] else tr"
    let ?ev = "CreateSeriesListIfNotExists (FromTSMFile p) ?kb ?nb (take (Suc ti) ?tb)"
    have ok': "tsm_state_ok env p ?kb ?nb ?tb (Suc ti)"
      by (rule tsm_state_ok_step [OF Cons.prems lt])
    have Pev: "tsm_phase_event env ?ev"
      by (rule tsm_state_ok_flush [OF ok']) simp
    show ?thesis
    proof (cases "int (length ?kb) = b")
      case flush: True
      show ?thesis
      proof (cases "createSeries env ?tr1 ?kb ?nb (take (Suc ti) ?tb)")
        case None
        from Cons.IH [OF tsm_state_ok_reset, of ?tb "?tr1 @ [?ev]"]
        obtain ext where
          "fst (IndexTSMFile_loop env p b v ks [] [] ?tb 0 (?tr1 @ [?ev])) = (?tr1 @ [?ev]) @ ext"
          "list_all (tsm_phase_event env) ext"
          "\<forall>kb nb tb ti'. snd (IndexTSMFile_loop env p b v ks [] [] ?tb 0 (?tr1 @ [?ev]))
                  = Returned (Inr (kb, nb, tb, ti')) \<longrightarrow> tsm_state_ok env p kb nb tb ti'"
          by blast
        with lt flush None Pev show ?thesis
          by (simp add: Let_def)
      next
        case (Some err)
        with lt flush Pev show ?thesis
          by (simp add: Let_def)
      qed
    next
      case noflush: False
      from Cons.IH [OF ok', of ?tr1]
      obtain ext where
        "fst (IndexTSMFile_loop env p b v ks ?kb ?nb ?tb (Suc ti) ?tr1) = ?tr1 @ ext"
        "list_all (tsm_phase_event env) ext"
        "\<forall>kb nb tb ti'. snd (IndexTSMFile_loop env p b v ks ?kb ?nb ?tb (Suc ti) ?tr1)
                = Returned (Inr (kb, nb, tb, ti')) \<longrightarrow> tsm_state_ok env p kb nb tb ti'"
        by blast
      with lt noflush show ?thesis
        by (simp add: Let_def)
    qed
  qed
qed

lemma IndexTSMFile_events:
  "\<exists>ext. fst (IndexTSMFile env p b v tr) = tr @ ext \<and> list_all (tsm_phase_event env) ext"
proof (cases "openFile env p")
  case (Some err)
  then show ?thesis by (simp add: IndexTSMFile_def)
next
  case None
  show ?thesis
  proof (cases "newTSMReader env p")
    case (Inl err)
    with None show ?thesis by (simp add: IndexTSMFile_def)
  next
    case (Inr ks)
    show ?thesis
    proof (cases "b < 0")
      case True
      with None Inr show ?thesis by (simp add: IndexTSMFile_def)
    next
      case False
      let ?tr2 = "tr @ [OpenFile p, NewTSMReader p]"
      let ?run = "IndexTSMFile_loop env p b v ks [] [] (replicate (nat b) []) 0 ?tr2"
      from IndexTSMFile_loop_events [OF tsm_state_ok_reset, of env p b v ks "replicate (nat b) []" ?tr2]
      obtain ext where ext: "fst ?run = ?tr2 @ ext" "list_all (tsm_phase_event env) ext"
        and ok: "\<And>kb nb tb ti'. snd ?run = Returned (Inr (kb, nb, tb, ti'))
                   \<Longrightarrow> tsm_state_ok env p kb nb tb ti'"
        by blast
      obtain tr3 r where run: "?run = (tr3, r)"
        by (cases ?run)
      with ext have tr3: "tr3 = ?tr2 @ ext" by simp
      show ?thesis
      proof (cases r)
        case Panic
        with None Inr False run tr3 ext(2) show ?thesis
          by (simp add: IndexTSMFile_def)
      next
        case (Returned x)
        show ?thesis
        proof (cases x)
          case (Inl err)
          with None Inr False run tr3 ext(2) Returned show ?thesis
            by (simp add: IndexTSMFile_def)
        next
          case (Inr st)
          obtain kb nb tb ti' where st: "st = (kb, nb, tb, ti')"
            by (cases st)
          from ok [of kb nb tb ti'] run Returned Inr st
          have sok: "tsm_state_ok env p kb nb tb ti'" by simp
          show ?thesis
          proof (cases "length kb > 0")
            case True
            with sok have "0 < ti'" by (simp add: tsm_state_ok_def)
            from tsm_state_ok_flush [OF sok this]
            have "tsm_phase_event env
                    (CreateSeriesListIfNotExists (FromTSMFile p) kb nb (take ti' tb))" .
            with None \<open>newTSMReader env p = Inr ks\<close> False run tr3 ext(2) Returned Inr st True
            show ?thesis
              by (cases "createSeries env tr3 kb nb (take ti' tb)")
                 (simp_all add: IndexTSMFile_def)
          next
            case F: False
            with None \<open>newTSMReader env p = Inr ks\<close> False run tr3 ext(2) Returned Inr st
            show ?thesis
              by (simp add: IndexTSMFile_def)
          qed
        qed
      qed
    qed
  qed
qed

lemma IndexShard_tsmLoop_events:
  "\<exists>ext. fst (IndexShard_tsmLoop env b v ps tr) = tr @ ext \<and> list_all (tsm_phase_event env) ext"
proof (induction ps arbitrary: tr)
  case Nil
  show ?case by simp
next
  case (Cons p ps)
  let ?tr1 = "tr @ [LogInfo ''Processing tsm file'']"
  obtain ext where ext: "fst (IndexTSMFile env p b v ?tr1) = ?tr1 @ ext"
      "list_all (tsm_phase_event env) ext"
    using IndexTSMFile_events [of env p b v ?tr1] by blast
  obtain tr' r where run: "IndexTSMFile env p b v ?tr1 = (tr', r)"
    by (cases "IndexTSMFile env p b v ?tr1")
  with ext have tr': "tr' = ?tr1 @ ext" by simp
  show ?case
  proof (cases r)
    case Panic
    with run tr' ext(2) show ?thesis by simp
  next
    case (Returned x)
    show ?thesis
    proof (cases x)
      case (Some err)
      with run tr' ext(2) Returned show ?thesis by simp
    next
      case None
      obtain ext' where "fst (IndexShard_tsmLoop env b v ps tr') = tr' @ ext'"
          "list_all (tsm_phase_event env) ext'"
        using Cons.IH [of tr'] by blast
      with run tr' ext(2) Returned None show ?thesis by simp
    qed
  qed
qed

lemma cache_state_ok_step:
  assumes "cache_state_ok env keysBatch namesBatch tagsBatch"
  shows "cache_state_ok env (keysBatch @ [k]) (namesBatch @ [fst (ParseKeyBytes env k)])
           (tagsBatch @ [snd (ParseKeyBytes env k)])"
  using assms
  by (auto simp: cache_state_ok_def parsed_from_def nth_append less_Suc_eq)

lemma cache_state_ok_flush:
  assumes "cache_state_ok env keysBatch namesBatch tagsBatch" and "keysBatch \<noteq> []"
  shows "cache_phase_event env
           (CreateSeriesListIfNotExists FromCache keysBatch namesBatch tagsBatch)"
  using assms by (auto simp: cache_state_ok_def cache_phase_event.simps)

lemma cache_state_ok_reset: "cache_state_ok env [] [] []"
  by (simp add: cache_state_ok_def)

lemma IndexShard_cacheLoop_events:
  assumes "cache_state_ok env keysBatch namesBatch tagsBatch"
  shows "\<exists>ext. fst (IndexShard_cacheLoop env b v ks keysBatch namesBatch tagsBatch tr) = tr @ ext
           \<and> list_all (cache_phase_event env) ext
           \<and> (\<forall>kb nb tb.
                 snd (IndexShard_cacheLoop env b v ks keysBatch namesBatch tagsBatch tr)
                   = Inr (kb, nb, tb) \<longrightarrow> cache_state_ok env kb nb tb)"
  using assms
proof (induction ks arbitrary: keysBatch namesBatch tagsBatch tr)
  case Nil
  then show ?case by simp
next
  case (Cons k ks)
  let ?sk = "fst (SeriesAndFieldFromCompositeKey env k)"
  let ?pr = "ParseKeyBytes env ?sk"
  let ?kb = "keysBatch @ [?sk]" and ?nb = "namesBatch @ [fst ?pr]"
  let ?tb = "tagsBatch @ [snd ?pr]"
  let ?tr1 = "if v then tr @ [LogInfo ''Series''] else tr"
  let ?ev = "CreateSeriesListIfNotExists FromCache ?kb ?nb ?tb"
  have ok': "cache_state_ok env ?kb ?nb ?tb"
    by (rule cache_state_ok_step [OF Cons.prems])
  have Pev: "cache_phase_event env ?ev"
    by (rule cache_state_ok_flush [OF ok']) simp
  show ?case
  proof (cases "int (length ?kb) = b")
    case flush: True
    show ?thesis
    proof (cases "createSeries env ?tr1 ?kb ?nb ?tb")
      case None
      from Cons.IH [OF cache_state_ok_reset, of "?tr1 @ [?ev]"]
      obtain ext where
        "fst (IndexShard_cacheLoop env b v ks [] [] [] (?tr1 @ [?ev])) = (?tr1 @ [?ev]) @ ext"
        "list_all (cache_phase_event env) ext"
        "\<forall>kb nb tb. snd (IndexShard_cacheLoop env b v ks [] [] [] (?tr1 @ [?ev]))
                = Inr (kb, nb, tb) \<longrightarrow> cache_state_ok env kb nb tb"
        by blast
      with flush None Pev show ?thesis
        by (simp add: Let_def)
    next
      case (Some err)
      with flush Pev show ?thesis
        by (simp add: Let_def)
    qed
  next
    case noflush: False
    from Cons.IH [OF ok', of ?tr1]
    obtain ext where
      "fst (IndexShard_cacheLoop env b v ks ?kb ?nb ?tb ?tr1) = ?tr1 @ ext"
      "list_all (cache_phase_event env) ext"
      "\<forall>kb nb tb. snd (IndexShard_cacheLoop env b v ks ?kb ?nb ?tb ?tr1)
              = Inr (kb, nb, tb) \<longrightarrow> cache_state_ok env kb nb tb"
      by blast
    with noflush show ?thesis
      by (simp add: Let_def)
  qed
qed

lemma IndexShard_cache_events:
  "\<exists>ext. fst (IndexShard_cache env walPaths b v tr) = tr @ ext
         \<and> list_all (cache_phase_event env) ext"
proof (cases "cacheLoad env walPaths")
  case (Inl err)
  then show ?thesis by (simp add: IndexShard_cache_def)
next
  case (Inr ks)
  show ?thesis
  proof (cases "b < 0")
    case True
    with Inr show ?thesis by (simp add: IndexShard_cache_def)
  next
    case False
    let ?tr2 = "tr @ [LogInfo ''Building cache from wal files'', CacheLoad walPaths,
                      LogInfo ''Iterating over cache'']"
    let ?run = "IndexShard_cacheLoop env b v ks [] [] [] ?tr2"
    from IndexShard_cacheLoop_events [OF cache_state_ok_reset, of env b v ks ?tr2]
    obtain ext where ext: "fst ?run = ?tr2 @ ext" "list_all (cache_phase_event env) ext"
      and ok: "\<And>kb nb tb. snd ?run = Inr (kb, nb, tb) \<Longrightarrow> cache_state_ok env kb nb tb"
      by blast
    obtain tr3 r where run: "?run = (tr3, r)"
      by (cases ?run)
    with ext have tr3: "tr3 = ?tr2 @ ext" by simp
    show ?thesis
    proof (cases r)
      case (Inl err)
      with \<open>cacheLoad env walPaths = Inr ks\<close> False run tr3 ext(2) show ?thesis
        by (simp add: IndexShard_cache_def)
    next
      case (Inr st)
      obtain kb nb tb where st: "st = (kb, nb, tb)"
        by (cases st)
      from ok [of kb nb tb] run Inr st have sok: "cache_state_ok env kb nb tb"
        by simp
      show ?thesis
      proof (cases "length kb > 0")
        case True
        then have "kb \<noteq> []" by auto
        from cache_state_ok_flush [OF sok this]
        have "cache_phase_event env (CreateSeriesListIfNotExists FromCache kb nb tb)" .
        with \<open>cacheLoad env walPaths = Inr ks\<close> False run tr3 ext(2) Inr st True
        show ?thesis
          by (cases "createSeries env tr3 kb nb tb") (simp_all add: IndexShard_cache_def)
      next
        case F: False
        with \<open>cacheLoad env walPaths = Inr ks\<close> False run tr3 ext(2) Inr st
        show ?thesis
          by (simp add: IndexShard_cache_def)
      qed
    qed
  qed
qed

lemma collectTSMFiles_trace: "fst (collectTSMFiles env p tr) = tr @ [ReadDir p]"
  by (simp add: collectTSMFiles_def Let_def split: sum.splits)

lemma collectWALFiles_events:
  "\<exists>ext. fst (collectWALFiles env p tr) = tr @ ext \<and> list_all (cache_phase_event env) ext"
  by (cases "stat env p"; cases "readDir env p") (simp_all add: collectWALFiles_def Let_def)

lemma IndexShard_finish_append:
  "IndexShard_finish env tmpPath indexPath tr =
     (tr @ fst (IndexShard_finish env tmpPath indexPath []),
      snd (IndexShard_finish env tmpPath indexPath []))"
  by (simp add: IndexShard_finish_def Let_def split: option.splits)

text \<open>
  The part of a run in which the index is open consists of events of the TSM phase,
  then events of the cache phase, then nothing more or the events of the end of
  \<^verbatim>\<open>IndexShard\<close>.
\<close>

lemma IndexShard_opened_phases:
  "\<exists>A B F. fst (IndexShard_opened env dataDir walDir b v tmpPath indexPath tr) = tr @ A @ B @ F
     \<and> list_all (tsm_phase_event env) A \<and> list_all (cache_phase_event env) B
     \<and> (F = [] \<or> F = fst (IndexShard_finish env tmpPath indexPath []))"
proof -
  let ?tr1 = "tr @ [ReadDir dataDir]"
  obtain c where c: "collectTSMFiles env dataDir tr = (?tr1, c)"
    using collectTSMFiles_trace [of env dataDir tr] by (cases "collectTSMFiles env dataDir tr") simp
  show ?thesis
  proof (cases c)
    case (Inl err)
    have "fst (IndexShard_opened env dataDir walDir b v tmpPath indexPath tr)
            = tr @ [ReadDir dataDir] @ [] @ []"
      using c Inl by (simp add: IndexShard_opened_def)
    then show ?thesis
      by (intro exI [of _ "[ReadDir dataDir]"] exI [of _ "[]"]) simp
  next
    case (Inr tsmPaths)
    let ?tr1' = "?tr1 @ [LogInfo ''Iterating over tsm files'']"
    obtain ext2 where ext2: "fst (IndexShard_tsmLoop env b v tsmPaths ?tr1') = ?tr1' @ ext2"
        "list_all (tsm_phase_event env) ext2"
      using IndexShard_tsmLoop_events [of env b v tsmPaths ?tr1'] by blast
    let ?A = "[ReadDir dataDir, LogInfo ''Iterating over tsm files''] @ ext2"
    have A: "list_all (tsm_phase_event env) ?A"
      using ext2(2) by simp
    obtain tr2 r2 where l: "IndexShard_tsmLoop env b v tsmPaths ?tr1' = (tr2, r2)"
      by (cases "IndexShard_tsmLoop env b v tsmPaths ?tr1'")
    with ext2 have tr2: "tr2 = tr @ ?A" by simp
    have stop: ?thesis
      if "fst (IndexShard_opened env dataDir walDir b v tmpPath indexPath tr) = tr2"
    proof -
      from that tr2 have "fst (IndexShard_opened env dataDir walDir b v tmpPath indexPath tr)
                            = tr @ ?A @ [] @ []" by simp
      with A show ?thesis
        by (intro exI [of _ ?A] exI [of _ "[]"]) simp
    qed
    show ?thesis
    proof (cases r2)
      case Panic
      with c Inr l show ?thesis by (intro stop) (simp add: IndexShard_opened_def)
    next
      case (Returned x)
      show ?thesis
      proof (cases x)
        case (Some err)
        with c Inr l Returned show ?thesis by (intro stop) (simp add: IndexShard_opened_def)
      next
        case None
        obtain ext3 where ext3: "fst (collectWALFiles env walDir tr2) = tr2 @ ext3"
            "list_all (cache_phase_event env) ext3"
          using collectWALFiles_events [of env walDir tr2] by blast
        obtain tr3 r3 where w: "collectWALFiles env walDir tr2 = (tr3, r3)"
          by (cases "collectWALFiles env walDir tr2")
        with ext3 have tr3: "tr3 = tr2 @ ext3" by simp
        have opened: "IndexShard_opened env dataDir walDir b v tmpPath indexPath tr =
           (case r3 of
              Inl err \<Rightarrow>
                if \<not> IsNotExist (Some err) then (tr3, Returned (Some err))
                else IndexShard_finish env tmpPath indexPath tr3
            | Inr walPaths \<Rightarrow>
                (case IndexShard_cache env walPaths b v tr3 of
                   (tr4, Panic) \<Rightarrow> (tr4, Panic)
                 | (tr4, Returned (Some err)) \<Rightarrow> (tr4, Returned (Some err))
                 | (tr4, Returned None) \<Rightarrow> IndexShard_finish env tmpPath indexPath tr4))"
          using c Inr l Returned None w by (simp add: IndexShard_opened_def)
        show ?thesis
        proof (cases r3)
          case (Inl err)
          show ?thesis
          proof (cases "IsNotExist (Some err)")
            case False
            with opened Inl tr3 tr2
            have "fst (IndexShard_opened env dataDir walDir b v tmpPath indexPath tr)
                    = tr @ ?A @ ext3 @ []" by simp
            with A ext3(2) show ?thesis
              by (intro exI [of _ ?A] exI [of _ ext3] exI [of _ "[]"]) simp
          next
            case True
            with opened Inl tr3 tr2
            have "fst (IndexShard_opened env dataDir walDir b v tmpPath indexPath tr)
                    = tr @ ?A @ ext3 @ fst (IndexShard_finish env tmpPath indexPath [])"
              by (simp add: IndexShard_finish_append [of env tmpPath indexPath "tr @ _"])
            with A ext3(2) show ?thesis
              by (intro exI [of _ ?A] exI [of _ ext3]
                    exI [of _ "fst (IndexShard_finish env tmpPath indexPath [])"]) simp
          qed
        next
          case (Inr walPaths)
          obtain ext4 where ext4: "fst (IndexShard_cache env walPaths b v tr3) = tr3 @ ext4"
              "list_all (cache_phase_event env) ext4"
            using IndexShard_cache_events [of env walPaths b v tr3] by blast
          obtain tr4 r4 where ca: "IndexShard_cache env walPaths b v tr3 = (tr4, r4)"
            by (cases "IndexShard_cache env walPaths b v tr3")
          with ext4 have tr4: "tr4 = tr @ ?A @ (ext3 @ ext4)"
            using tr3 tr2 by simp
          have B: "list_all (cache_phase_event env) (ext3 @ ext4)"
            using ext3(2) ext4(2) by simp
          show ?thesis
          proof (cases "r4 = Returned None")
            case True
            with opened Inr ca tr4
            have "fst (IndexShard_opened env dataDir walDir b v tmpPath indexPath tr)
                    = tr @ ?A @ (ext3 @ ext4) @ fst (IndexShard_finish env tmpPath indexPath [])"
              by (simp add: IndexShard_finish_append [of env tmpPath indexPath "tr @ _"])
            with A B show ?thesis
              by (intro exI [of _ ?A] exI [of _ "ext3 @ ext4"]
                    exI [of _ "fst (IndexShard_finish env tmpPath indexPath [])"]) simp
          next
            case False
            with opened Inr ca tr4
            have "fst (IndexShard_opened env dataDir walDir b v tmpPath indexPath tr)
                    = tr @ ?A @ (ext3 @ ext4) @ []"
              by (cases r4) (auto split: option.splits)
            with A B show ?thesis
              by (intro exI [of _ ?A] exI [of _ "ext3 @ ext4"] exI [of _ "[]"]) simp
          qed
        qed
      qed
    qed
  qed
qed

lemmas run_defs = IndexShard_def IndexShard_opened_def IndexShard_finish_def IndexShard_cache_def
      IndexTSMFile_def collectTSMFiles_def collectWALFiles_def filepath_Ext_def
      IsNotExist_def Let_def

lemma ex_run:
  "IndexShard ex_env ''d'' ''w'' 2 False [] =
     ([LogInfo ''Rebuilding shard'', LogInfo ''Checking index path'', Stat ''d/index'',
       LogInfo ''Opening shard'',
       LogInfo ''Cleaning up partial index from previous run, if any'',
       RemoveAll ''d/.index'',
       LogInfo ''Opening tsi index in temporary location'', IndexOpen ''d/.index'',
       ReadDir ''d'', LogInfo ''Iterating over tsm files'',
       LogInfo ''Processing tsm file'', OpenFile ''d/1.tsm'', NewTSMReader ''d/1.tsm'',
       CreateSeriesListIfNotExists (FromTSMFile ''d/1.tsm'')
         [''cpu,host=a'', ''cpu,host=b''] [''cpu'', ''cpu''] [[], []],
       CreateSeriesListIfNotExists (FromTSMFile ''d/1.tsm'') [''cpu,host=c''] [''cpu''] [[]],
       ReaderClose ''d/1.tsm'', FileClose ''d/1.tsm'',
       LogInfo ''Processing tsm file'', OpenFile ''d/2.tsm'', NewTSMReader ''d/2.tsm'',
       LogWarn ''Unable to read, skipping'', FileClose ''d/2.tsm'',
       Stat ''w'', ReadDir ''w'',
       LogInfo ''Building cache from wal files'', CacheLoad [''w/_1.wal''],
       LogInfo ''Iterating over cache'',
       CreateSeriesListIfNotExists FromCache [''mem,host=a''] [''mem''] [[]],
       LogInfo ''compacting index'', IndexCompact, IndexWait,
       LogInfo ''Closing tsi index'', IndexClose,
       LogInfo ''Moving tsi to permanent location'', Rename ''d/.index'' ''d/index'',
       IndexClose],
      Returned None)"
  by (simp add: run_defs ex_env_def numeral_2_eq_2)

lemma IndexShard_finish_trace:
  "fst (IndexShard_finish env tmpPath indexPath []) =
     (if indexClose env = None
      then [LogInfo ''compacting index'', IndexCompact, IndexWait,
            LogInfo ''Closing tsi index'', IndexClose,
            LogInfo ''Moving tsi to permanent location'', Rename tmpPath indexPath]
      else [LogInfo ''compacting index'', IndexCompact, IndexWait,
            LogInfo ''Closing tsi index'', IndexClose])"
  by (simp add: IndexShard_finish_def Let_def split: option.splits)

text \<open>
  A run of \<^verbatim>\<open>IndexShard\<close> ends after the check of the index path, or after the removal of
  the temporary path failed, or after the opening of the index failed, or it runs
  through the two phases and ends with the deferred close of the index.
\<close>

lemma IndexShard_phases:
  fixes env dataDir
  defines "indexPath \<equiv> Join env dataDir ''index''" and "tmpPath \<equiv> Join env dataDir ''.index''"
  shows "(\<not> IsNotExist (stat env indexPath)
          \<and> IndexShard env dataDir walDir b v tr =
              (tr @ take 3 (opening_events indexPath tmpPath)
                  @ [LogInfo ''tsi1 index already exists, skipping''], Returned None))
       \<or> (IsNotExist (stat env indexPath) \<and> removeAll env tmpPath \<noteq> None
          \<and> IndexShard env dataDir walDir b v tr =
              (tr @ take 6 (opening_events indexPath tmpPath), Returned (removeAll env tmpPath)))
       \<or> (IsNotExist (stat env indexPath) \<and> removeAll env tmpPath = None
          \<and> indexOpen env tmpPath \<noteq> None
          \<and> IndexShard env dataDir walDir b v tr =
              (tr @ opening_events indexPath tmpPath, Returned (indexOpen env tmpPath)))
       \<or> (IsNotExist (stat env indexPath) \<and> removeAll env tmpPath = None
          \<and> indexOpen env tmpPath = None
          \<and> (\<exists>A B F. fst (IndexShard env dataDir walDir b v tr)
                        = tr @ opening_events indexPath tmpPath @ A @ B @ F @ [IndexClose]
                \<and> list_all (tsm_phase_event env) A \<and> list_all (cache_phase_event env) B
                \<and> (F = [] \<or> F = fst (IndexShard_finish env tmpPath indexPath []))))"
proof (cases "IsNotExist (stat env indexPath)")
  case False
  then show ?thesis
    by (simp add: IndexShard_def Let_def indexPath_def opening_events_def)
next
  case ne: True
  show ?thesis
  proof (cases "removeAll env tmpPath")
    case (Some err)
    with ne show ?thesis
      by (simp add: IndexShard_def Let_def indexPath_def tmpPath_def opening_events_def)
  next
    case rm: None
    show ?thesis
    proof (cases "indexOpen env tmpPath")
      case (Some err)
      with ne rm show ?thesis
        by (simp add: IndexShard_def Let_def indexPath_def tmpPath_def opening_events_def)
    next
      case op: None
      let ?tr3 = "tr @ opening_events indexPath tmpPath"
      obtain A B F where
        "fst (IndexShard_opened env dataDir walDir b v tmpPath indexPath ?tr3) = ?tr3 @ A @ B @ F"
        "list_all (tsm_phase_event env) A" "list_all (cache_phase_event env) B"
        "F = [] \<or> F = fst (IndexShard_finish env tmpPath indexPath [])"
        using IndexShard_opened_phases [of env dataDir walDir b v tmpPath indexPath ?tr3]
        by blast
      moreover have "fst (IndexShard env dataDir walDir b v tr)
          = fst (IndexShard_opened env dataDir walDir b v tmpPath indexPath ?tr3) @ [IndexClose]"
        using ne rm op
        by (simp add: IndexShard_def Let_def indexPath_def tmpPath_def opening_events_def
              split: prod.splits)
      ultimately have "\<exists>A B F. fst (IndexShard env dataDir walDir b v tr)
                        = tr @ opening_events indexPath tmpPath @ A @ B @ F @ [IndexClose]
                \<and> list_all (tsm_phase_event env) A \<and> list_all (cache_phase_event env) B
                \<and> (F = [] \<or> F = fst (IndexShard_finish env tmpPath indexPath []))"
        by (intro exI [of _ A] exI [of _ B] exI [of _ F]) simp
      with ne rm op show ?thesis by simp
    qed
  qed
qed

lemma tsm_phase_event_parallel: "tsm_phase_event env e \<Longrightarrow> parallel_call env e"
  by (cases "(env, e)" rule: tsm_phase_event.cases) (simp_all add: tsm_phase_event.simps)

lemma cache_phase_event_parallel: "cache_phase_event env e \<Longrightarrow> parallel_call env e"
  by (cases "(env, e)" rule: cache_phase_event.cases) (simp_all add: cache_phase_event.simps)

lemma tsm_phase_event_not_cache: "tsm_phase_event env e \<Longrightarrow> \<not> cache_event e"
  by (cases "(env, e)" rule: tsm_phase_event.cases) (simp_all add: tsm_phase_event.simps)

lemma cache_phase_event_not_tsm: "cache_phase_event env e \<Longrightarrow> \<not> tsm_file_event e"
  by (cases "(env, e)" rule: cache_phase_event.cases) (simp_all add: cache_phase_event.simps)

lemma finish_events_plain:
  "e \<in> set (fst (IndexShard_finish env tmpPath indexPath [])) \<Longrightarrow>
     parallel_call env e \<and> \<not> tsm_file_event e \<and> \<not> cache_event e"
  by (auto simp: IndexShard_finish_trace split: if_splits)

lemma opening_events_plain:
  "e \<in> set (opening_events indexPath tmpPath) \<Longrightarrow>
     parallel_call env e \<and> \<not> tsm_file_event e \<and> \<not> cache_event e"
  by (auto simp: opening_events_def)

subsection \<open>Batches and chunks\<close>

declare chunks.simps [simp del]

lemma chunks_Nil [simp]: "chunks n [] = []"
  by (simp add: chunks.simps)

lemma chunks_short: "0 < n \<Longrightarrow> xs \<noteq> [] \<Longrightarrow> length xs \<le> n \<Longrightarrow> chunks n xs = [xs]"
  by (subst chunks.simps) simp

lemma chunks_full: "0 < n \<Longrightarrow> length xs = n \<Longrightarrow> chunks n (xs @ ys) = xs # chunks n ys"
  by (subst chunks.simps) auto

lemma concat_chunks: "0 < n \<Longrightarrow> concat (chunks n xs) = xs"
proof (induction n xs rule: chunks.induct)
  case (1 n xs)
  then show ?case
    by (subst chunks.simps) auto
qed

lemma length_chunks: "0 < n \<Longrightarrow> length (chunks n xs) = (length xs + n - 1) div n"
proof (induction n xs rule: chunks.induct)
  case (1 n xs)
  show ?case
  proof (cases "xs = []")
    case True
    with 1 show ?thesis by simp
  next
    case False
    with 1 have IH: "length (chunks n (drop n xs)) = (length xs - n + n - 1) div n"
      by simp
    have eq: "chunks n xs = take n xs # chunks n (drop n xs)"
      using False 1(2) by (subst chunks.simps) simp
    show ?thesis
    proof (cases "length xs \<le> n")
      case True
      define l where "l = length xs"
      with False have "0 < l" by simp
      moreover from True l_def have "l \<le> n" by simp
      ultimately have "n * 1 \<le> l + n - 1" "l + n - 1 < n * Suc 1"
        by simp_all
      then have "n * 1 \<le> length xs + n - 1" "length xs + n - 1 < n * Suc 1"
        by (simp_all add: l_def)
      then have "(length xs + n - 1) div n = 1"
        by (rule div_nat_eqI)
      with True eq show ?thesis by simp
    next
      case gt: False
      define m where "m = length xs - n + n - 1"
      from gt 1(2) have "length xs + n - 1 = m + n"
        by (simp add: m_def)
      moreover have "(m + n) div n = Suc (m div n)"
        using 1(2) div_add_self2 [of n m] by simp
      ultimately have "(length xs + n - 1) div n = Suc (m div n)"
        by simp
      with eq IH show ?thesis by (simp add: m_def)
    qed
  qed
qed

lemma chunks_all_but_last_full:
  "0 < n \<Longrightarrow> Suc i < length (chunks n xs) \<Longrightarrow> length (chunks n xs ! i) = n"
proof (induction n xs arbitrary: i rule: chunks.induct)
  case (1 n xs)
  show ?case
  proof (cases "xs = []")
    case True
    with 1(3) show ?thesis by simp
  next
    case False
    have eq: "chunks n xs = take n xs # chunks n (drop n xs)"
      using False 1(2) by (subst chunks.simps) simp
    show ?thesis
    proof (cases i)
      case 0
      from 1(3) eq have "chunks n (drop n xs) \<noteq> []" by auto
      then have "drop n xs \<noteq> []" by auto
      then have "n \<le> length xs" by simp
      with 0 eq show ?thesis by simp
    next
      case (Suc i')
      with 1(3) eq have "Suc i' < length (chunks n (drop n xs))" by simp
      with 1(1) [of i'] False 1(2) have "length (chunks n (drop n xs) ! i') = n" by simp
      with Suc eq show ?thesis by simp
    qed
  qed
qed

lemma batches_append: "batches src (xs @ ys) = batches src xs @ batches src ys"
  by (induction src xs rule: batches.induct) simp_all

lemma batches_snoc_insert [simp]:
  "batches src (tr @ [CreateSeriesListIfNotExists src ks ns ts]) = batches src tr @ [ks]"
  by (simp add: batches_append)

lemma batches_snoc_LogInfo [simp]: "batches src (tr @ [LogInfo s]) = batches src tr"
  by (simp add: batches_append)

lemma IndexTSMFile_loop_batches:
  assumes "0 < b" and "length keysBatch < nat b"
    and "IndexTSMFile_loop env p b v ks keysBatch namesBatch tagsBatch ti tr
           = (tr', Returned (Inr (kb', nb', tb', ti')))"
  shows "batches (FromTSMFile p) tr' @ (if kb' = [] then [] else [kb'])
           = batches (FromTSMFile p) tr
               @ chunks (nat b)
                   (keysBatch @ map (\<lambda>k. fst (SeriesAndFieldFromCompositeKey env k)) ks)
         \<and> length kb' < nat b"
  using assms(2,3)
proof (induction ks arbitrary: keysBatch namesBatch tagsBatch ti tr)
  case Nil
  then show ?case
    using assms(1) by (auto simp: chunks_short)
next
  case (Cons k ks)
  let ?sk = "fst (SeriesAndFieldFromCompositeKey env k)"
  let ?pr = "ParseKeyBytesWithTags env ?sk (tagsBatch ! ti)"
  let ?kb = "keysBatch @ [?sk]" and ?nb = "namesBatch @ [fst ?pr]"
  let ?tb = "tagsBatch[ti := snd ?pr]"
  let ?tr1 = "if v then tr @ [LogInfo ''Series''] else tr"
  let ?ev = "CreateSeriesListIfNotExists (FromTSMFile p) ?kb ?nb (take (Suc ti) ?tb)"
  from Cons.prems(2) have lt: "ti < length tagsBatch"
    by (auto simp: Let_def split: if_splits)
  have tr1: "batches (FromTSMFile p) ?tr1 = batches (FromTSMFile p) tr"
    by simp
  show ?case
  proof (cases "int (length ?kb) = b")
    case flush: True
    then have full: "length ?kb = nat b" by auto
    from Cons.prems(2) lt flush
    have none: "createSeries env ?tr1 ?kb ?nb (take (Suc ti) ?tb) = None"
      by (auto simp: Let_def split: option.splits)
    with Cons.prems(2) lt flush
    have run: "IndexTSMFile_loop env p b v ks [] [] ?tb 0 (?tr1 @ [?ev])
                 = (tr', Returned (Inr (kb', nb', tb', ti')))"
      by (simp add: Let_def)
    have "length ([] :: key list) < nat b"
      using assms(1) by simp
    from Cons.IH [OF this run]
    have "batches (FromTSMFile p) tr' @ (if kb' = [] then [] else [kb'])
            = batches (FromTSMFile p) (?tr1 @ [?ev])
                @ chunks (nat b) (map (\<lambda>k. fst (SeriesAndFieldFromCompositeKey env k)) ks)"
      and len: "length kb' < nat b"
      by simp_all
    moreover have "batches (FromTSMFile p) (?tr1 @ [?ev]) = batches (FromTSMFile p) tr @ [?kb]"
      by (simp only: batches_snoc_insert tr1)
    moreover have "chunks (nat b)
                     (keysBatch @ map (\<lambda>k. fst (SeriesAndFieldFromCompositeKey env k)) (k # ks))
                   = ?kb # chunks (nat b) (map (\<lambda>k. fst (SeriesAndFieldFromCompositeKey env k)) ks)"
      using chunks_full [OF _ full, of "map (\<lambda>k. fst (SeriesAndFieldFromCompositeKey env k)) ks"]
        assms(1) by simp
    ultimately show ?thesis by simp
  next
    case noflush: False
    with Cons.prems(1) have short: "length ?kb < nat b" by auto
    from Cons.prems(2) lt noflush
    have run: "IndexTSMFile_loop env p b v ks ?kb ?nb ?tb (Suc ti) ?tr1
                 = (tr', Returned (Inr (kb', nb', tb', ti')))"
      by (simp add: Let_def)
    from Cons.IH [OF short run] tr1 show ?thesis by simp
  qed
qed

lemma IndexTSMFile_batches:
  assumes "0 < b" and "openFile env p = None" and "newTSMReader env p = Inr ks"
    and "IndexTSMFile env p b v tr = (tr', Returned None)"
  shows "batches (FromTSMFile p) tr'
           = batches (FromTSMFile p) tr
               @ chunks (nat b) (map (\<lambda>k. fst (SeriesAndFieldFromCompositeKey env k)) ks)"
proof -
  let ?tr2 = "tr @ [OpenFile p, NewTSMReader p]"
  let ?run = "IndexTSMFile_loop env p b v ks [] [] (replicate (nat b) []) 0 ?tr2"
  obtain tr3 r where run: "?run = (tr3, r)"
    by (cases ?run)
  from assms run obtain kb nb tb ti where r: "r = Returned (Inr (kb, nb, tb, ti))"
    by (cases r rule: outcome.exhaust; cases "case r of Returned x \<Rightarrow> x" )
       (auto simp: IndexTSMFile_def split: if_splits option.splits)
  have "length ([] :: key list) < nat b"
    using assms(1) by simp
  from IndexTSMFile_loop_batches [OF assms(1) this run [unfolded r]]
  have b3: "batches (FromTSMFile p) tr3 @ (if kb = [] then [] else [kb])
              = batches (FromTSMFile p) ?tr2
                  @ chunks (nat b) (map (\<lambda>k. fst (SeriesAndFieldFromCompositeKey env k)) ks)"
    by simp
  have tr2: "batches (FromTSMFile p) ?tr2 = batches (FromTSMFile p) tr"
    by (simp add: batches_append)
  have "batches (FromTSMFile p) tr' = batches (FromTSMFile p) tr3 @ (if kb = [] then [] else [kb])"
    using assms run r
    by (auto simp: IndexTSMFile_def Let_def batches_append split: if_splits option.splits)
  with b3 tr2 show ?thesis by simp
qed

lemma IndexShard_cacheLoop_batches:
  assumes "0 < b" and "length keysBatch < nat b"
    and "IndexShard_cacheLoop env b v ks keysBatch namesBatch tagsBatch tr
           = (tr', Inr (kb', nb', tb'))"
  shows "batches FromCache tr' @ (if kb' = [] then [] else [kb'])
           = batches FromCache tr
               @ chunks (nat b)
                   (keysBatch @ map (\<lambda>k. fst (SeriesAndFieldFromCompositeKey env k)) ks)
         \<and> length kb' < nat b"
  using assms(2,3)
proof (induction ks arbitrary: keysBatch namesBatch tagsBatch tr)
  case Nil
  then show ?case
    using assms(1) by (auto simp: chunks_short)
next
  case (Cons k ks)
  let ?sk = "fst (SeriesAndFieldFromCompositeKey env k)"
  let ?pr = "ParseKeyBytes env ?sk"
  let ?kb = "keysBatch @ [?sk]" and ?nb = "namesBatch @ [fst ?pr]"
  let ?tb = "tagsBatch @ [snd ?pr]"
  let ?tr1 = "if v then tr @ [LogInfo ''Series''] else tr"
  let ?ev = "CreateSeriesListIfNotExists FromCache ?kb ?nb ?tb"
  have tr1: "batches FromCache ?tr1 = batches FromCache tr"
    by simp
  show ?case
  proof (cases "int (length ?kb) = b")
    case flush: True
    then have full: "length ?kb = nat b" by auto
    from Cons.prems(2) flush
    have none: "createSeries env ?tr1 ?kb ?nb ?tb = None"
      by (auto simp: Let_def split: option.splits)
    with Cons.prems(2) flush
    have run: "IndexShard_cacheLoop env b v ks [] [] [] (?tr1 @ [?ev])
                 = (tr', Inr (kb', nb', tb'))"
      by (simp add: Let_def)
    have "length ([] :: key list) < nat b"
      using assms(1) by simp
    from Cons.IH [OF this run]
    have "batches FromCache tr' @ (if kb' = [] then [] else [kb'])
            = batches FromCache (?tr1 @ [?ev])
                @ chunks (nat b) (map (\<lambda>k. fst (SeriesAndFieldFromCompositeKey env k)) ks)"
      and len: "length kb' < nat b"
      by simp_all
    moreover have "batches FromCache (?tr1 @ [?ev]) = batches FromCache tr @ [?kb]"
      by (simp only: batches_snoc_insert tr1)
    moreover have "chunks (nat b)
                     (keysBatch @ map (\<lambda>k. fst (SeriesAndFieldFromCompositeKey env k)) (k # ks))
                   = ?kb # chunks (nat b) (map (\<lambda>k. fst (SeriesAndFieldFromCompositeKey env k)) ks)"
      using chunks_full [OF _ full, of "map (\<lambda>k. fst (SeriesAndFieldFromCompositeKey env k)) ks"]
        assms(1) by simp
    ultimately show ?thesis by simp
  next
    case noflush: False
    with Cons.prems(1) have short: "length ?kb < nat b" by auto
    from Cons.prems(2) noflush
    have run: "IndexShard_cacheLoop env b v ks ?kb ?nb ?tb ?tr1 = (tr', Inr (kb', nb', tb'))"
      by (simp add: Let_def)
    from Cons.IH [OF short run] tr1 show ?thesis by simp
  qed
qed

lemma IndexShard_cache_batches:
  assumes "0 < b" and "cacheLoad env walPaths = Inr ks"
    and "IndexShard_cache env walPaths b v tr = (tr', Returned None)"
  shows "batches FromCache tr'
           = batches FromCache tr
               @ chunks (nat b) (map (\<lambda>k. fst (SeriesAndFieldFromCompositeKey env k)) ks)"
proof -
  let ?tr2 = "tr @ [LogInfo ''Building cache from wal files'', CacheLoad walPaths,
                    LogInfo ''Iterating over cache'']"
  let ?run = "IndexShard_cacheLoop env b v ks [] [] [] ?tr2"
  obtain tr3 r where run: "?run = (tr3, r)"
    by (cases ?run)
  from assms run obtain kb nb tb where r: "r = Inr (kb, nb, tb)"
    by (cases r) (auto simp: IndexShard_cache_def split: if_splits)
  have "length ([] :: key list) < nat b"
    using assms(1) by simp
  from IndexShard_cacheLoop_batches [OF assms(1) this run [unfolded r]]
  have b3: "batches FromCache tr3 @ (if kb = [] then [] else [kb])
              = batches FromCache ?tr2
                  @ chunks (nat b) (map (\<lambda>k. fst (SeriesAndFieldFromCompositeKey env k)) ks)"
    by simp
  have tr2: "batches FromCache ?tr2 = batches FromCache tr"
    by (simp add: batches_append)
  have "batches FromCache tr' = batches FromCache tr3 @ (if kb = [] then [] else [kb])"
    using assms run r
    by (auto simp: IndexShard_cache_def Let_def batches_append split: if_splits option.splits)
  with b3 tr2 show ?thesis by simp
qed

subsection \<open>Skipping, failures and the missing WAL directory\<close>

text \<open>
  Claim C4. When the index path of the shard exists (\<^verbatim>\<open>os.Stat\<close> returns no error), and more
  generally whenever the error of \<^verbatim>\<open>os.Stat\<close> is not a not-exist error, \<^verbatim>\<open>IndexShard\<close> makes no
  call but the \<^verbatim>\<open>os.Stat\<close> and its log lines (no removal of the temporary path, no opening
  of an index, no insert, no rename) and returns \<^verbatim>\<open>nil\<close>.
\<close>

theorem existing_index_is_left_untouched:
  assumes "\<not> IsNotExist (stat env (Join env dataDir ''index''))"
  shows "IndexShard env dataDir walDir batchSize verboseLogging tr =
           (tr @ [LogInfo ''Rebuilding shard'', LogInfo ''Checking index path'',
                  Stat (Join env dataDir ''index''),
                  LogInfo ''tsi1 index already exists, skipping''],
            Returned None)"
  using assms by (simp add: IndexShard_def)

theorem existing_index_is_left_untouched_witness:
  "stat ex_env (Join ex_env ''e'' ''index'') = None
   \<and> IndexShard ex_env ''e'' ''w'' 2 False [] =
       ([LogInfo ''Rebuilding shard'', LogInfo ''Checking index path'', Stat ''e/index'',
         LogInfo ''tsi1 index already exists, skipping''],
        Returned None)"
proof -
  have s: "stat ex_env (Join ex_env ''e'' ''index'') = None"
    by (simp add: ex_env_def)
  then have "\<not> IsNotExist (stat ex_env (Join ex_env ''e'' ''index''))"
    by (simp add: IsNotExist_def)
  from existing_index_is_left_untouched [OF this, of "''w''" 2 False "[]"] s
  show ?thesis
    by (simp add: ex_env_def)
qed

text \<open>
  Claim C5, as the code has it. A file that opens but is not a TSM file
  (\<^verbatim>\<open>tsm1.NewTSMReader\<close> fails) is logged with a warning and skipped: \<^verbatim>\<open>IndexTSMFile\<close> returns
  \<^verbatim>\<open>nil\<close> and the loop of \<^verbatim>\<open>IndexShard\<close> goes on with the remaining files. A file that
  cannot be opened is not skipped: \<^verbatim>\<open>IndexTSMFile\<close> returns the error of \<^verbatim>\<open>os.Open\<close> without a
  log line, and the loop of \<^verbatim>\<open>IndexShard\<close> ends with that error.
\<close>

theorem unreadable_tsm_file_skipped_unopenable_aborts:
  "(openFile env p = None \<and> newTSMReader env p = Inl err \<longrightarrow>
      IndexTSMFile env p batchSize verboseLogging tr =
        (tr @ [OpenFile p, NewTSMReader p, LogWarn ''Unable to read, skipping'', FileClose p],
         Returned None)
      \<and> IndexShard_tsmLoop env batchSize verboseLogging (p # ps) tr =
          IndexShard_tsmLoop env batchSize verboseLogging ps
            (tr @ [LogInfo ''Processing tsm file'', OpenFile p, NewTSMReader p,
                   LogWarn ''Unable to read, skipping'', FileClose p]))
   \<and> (openFile env p = Some err \<longrightarrow>
      IndexTSMFile env p batchSize verboseLogging tr = (tr @ [OpenFile p], Returned (Some err))
      \<and> IndexShard_tsmLoop env batchSize verboseLogging (p # ps) tr =
          (tr @ [LogInfo ''Processing tsm file'', OpenFile p], Returned (Some err)))"
  by (simp add: IndexTSMFile_def)

theorem unreadable_tsm_file_skipped_unopenable_aborts_witness:
  "(openFile ex_env ''d/2.tsm'' = None
    \<and> newTSMReader ex_env ''d/2.tsm'' = Inl (ErrorString ''bad magic'')
    \<and> IndexTSMFile ex_env ''d/2.tsm'' 2 False [] =
        ([OpenFile ''d/2.tsm'', NewTSMReader ''d/2.tsm'',
          LogWarn ''Unable to read, skipping'', FileClose ''d/2.tsm''],
         Returned None)
    \<and> IndexShard_tsmLoop ex_env 2 False [''d/2.tsm'', ''d/1.tsm''] [] =
        IndexShard_tsmLoop ex_env 2 False [''d/1.tsm'']
          [LogInfo ''Processing tsm file'', OpenFile ''d/2.tsm'', NewTSMReader ''d/2.tsm'',
           LogWarn ''Unable to read, skipping'', FileClose ''d/2.tsm''])
   \<and> (openFile ex_env_open_fails ''d/1.tsm'' =
         Some (PathError ''open'' ''d/1.tsm'' (ErrorString ''permission denied''))
    \<and> IndexTSMFile ex_env_open_fails ''d/1.tsm'' 2 False [] =
        ([OpenFile ''d/1.tsm''],
         Returned (Some (PathError ''open'' ''d/1.tsm'' (ErrorString ''permission denied''))))
    \<and> IndexShard_tsmLoop ex_env_open_fails 2 False [''d/1.tsm'', ''d/2.tsm''] [] =
        ([LogInfo ''Processing tsm file'', OpenFile ''d/1.tsm''],
         Returned (Some (PathError ''open'' ''d/1.tsm'' (ErrorString ''permission denied'')))))"
proof -
  have a: "openFile ex_env ''d/2.tsm'' = None"
    "newTSMReader ex_env ''d/2.tsm'' = Inl (ErrorString ''bad magic'')"
    by (simp_all add: ex_env_def)
  have b: "openFile ex_env_open_fails ''d/1.tsm'' =
             Some (PathError ''open'' ''d/1.tsm'' (ErrorString ''permission denied''))"
    by (simp add: ex_env_open_fails_def)
  from a b
    unreadable_tsm_file_skipped_unopenable_aborts
      [of ex_env "''d/2.tsm''" "ErrorString ''bad magic''" 2 False "[]" "[''d/1.tsm'']"]
    unreadable_tsm_file_skipped_unopenable_aborts
      [of ex_env_open_fails "''d/1.tsm''"
          "PathError ''open'' ''d/1.tsm'' (ErrorString ''permission denied'')" 2 False "[]"
          "[''d/2.tsm'']"]
  show ?thesis
    by simp
qed

text \<open>
  The claim as the specification states it fails: the first TSM file of the shard cannot
  be opened, \<^verbatim>\<open>IndexTSMFile\<close> returns the error and logs nothing, the rebuild of the shard
  returns the error, and the second file of the shard is never opened.
\<close>

theorem open_failure_is_not_skipped:
  "openFile ex_env_open_fails ''d/1.tsm'' \<noteq> None
   \<and> IndexTSMFile ex_env_open_fails ''d/1.tsm'' 2 False [] =
       ([OpenFile ''d/1.tsm''],
        Returned (Some (PathError ''open'' ''d/1.tsm'' (ErrorString ''permission denied''))))
   \<and> snd (IndexTSMFile ex_env_open_fails ''d/1.tsm'' 2 False []) \<noteq> Returned None
   \<and> IndexShard ex_env_open_fails ''d'' ''w'' 2 False [] =
       ([LogInfo ''Rebuilding shard'', LogInfo ''Checking index path'', Stat ''d/index'',
         LogInfo ''Opening shard'',
         LogInfo ''Cleaning up partial index from previous run, if any'',
         RemoveAll ''d/.index'',
         LogInfo ''Opening tsi index in temporary location'', IndexOpen ''d/.index'',
         ReadDir ''d'', LogInfo ''Iterating over tsm files'',
         LogInfo ''Processing tsm file'', OpenFile ''d/1.tsm'', IndexClose],
        Returned (Some (PathError ''open'' ''d/1.tsm'' (ErrorString ''permission denied''))))"
  by (simp add: run_defs ex_env_def ex_env_open_fails_def)

text \<open>
  Claim C6. Let the run have reached the listing of the WAL directory with the trace
  \<open>tr2\<close>: the index path did not exist, the temporary path was removed, the index was
  opened, the shard directory was listed and the loop over its TSM files returned
  \<^verbatim>\<open>nil\<close>. If the WAL directory argument is empty, or \<^verbatim>\<open>os.Stat\<close> reports that the directory
  does not exist, then no cache is loaded and nothing is inserted from one: the run goes
  on with compaction, wait, close and, when the close succeeds, the rename, whose result
  it returns. If instead \<^verbatim>\<open>collectWALFiles\<close> returns any error that is not a not-exist
  error, the run ends there with that error.
\<close>

theorem missing_wal_directory_is_no_data:
  assumes "IsNotExist (stat env (Join env dataDir ''index''))"
    and "removeAll env (Join env dataDir ''.index'') = None"
    and "indexOpen env (Join env dataDir ''.index'') = None"
    and "readDir env dataDir = Inr fis"
    and "IndexShard_tsmLoop env batchSize verboseLogging
           (map (Join env dataDir)
              (filter (\<lambda>n. filepath_Ext n = ''.'' @ TSMFileExtension env) fis))
           (tr @ opening_events (Join env dataDir ''index'') (Join env dataDir ''.index'')
               @ [ReadDir dataDir, LogInfo ''Iterating over tsm files''])
         = (tr2, Returned None)"
  shows "(walDir = [] \<or> IsNotExist (stat env walDir) \<longrightarrow>
            IndexShard env dataDir walDir batchSize verboseLogging tr =
              (tr2 @ (if walDir = [] then [] else [Stat walDir])
                 @ [LogInfo ''compacting index'', IndexCompact, IndexWait,
                    LogInfo ''Closing tsi index'', IndexClose]
                 @ (case indexClose env of
                      None \<Rightarrow> [LogInfo ''Moving tsi to permanent location'',
                               Rename (Join env dataDir ''.index'') (Join env dataDir ''index'')]
                    | Some err \<Rightarrow> [])
                 @ [IndexClose],
               Returned (case indexClose env of
                           None \<Rightarrow> rename env (Join env dataDir ''.index'')
                                     (Join env dataDir ''index'')
                         | Some err \<Rightarrow> Some err)))
       \<and> (collectWALFiles env walDir tr2 = (tr3, Inl err) \<and> \<not> IsNotExist (Some err) \<longrightarrow>
            IndexShard env dataDir walDir batchSize verboseLogging tr =
              (tr3 @ [IndexClose], Returned (Some err)))"
proof -
  let ?idx = "Join env dataDir ''index''" and ?tmp = "Join env dataDir ''.index''"
  have opened: "IndexShard env dataDir walDir batchSize verboseLogging tr =
      (case (case collectWALFiles env walDir tr2 of
               (tr3, Inl err) \<Rightarrow>
                 if \<not> IsNotExist (Some err) then (tr3, Returned (Some err))
                 else IndexShard_finish env ?tmp ?idx tr3
             | (tr3, Inr walPaths) \<Rightarrow>
                 (case IndexShard_cache env walPaths batchSize verboseLogging tr3 of
                    (tr4, Panic) \<Rightarrow> (tr4, Panic)
                  | (tr4, Returned (Some err)) \<Rightarrow> (tr4, Returned (Some err))
                  | (tr4, Returned None) \<Rightarrow> IndexShard_finish env ?tmp ?idx tr4)) of
         (tr4, r) \<Rightarrow> (tr4 @ [IndexClose], r))"
    using assms
    by (simp add: IndexShard_def IndexShard_opened_def collectTSMFiles_def Let_def
          opening_events_def)
  have absent: "collectWALFiles env walDir tr2 =
                  (tr2 @ (if walDir = [] then [] else [Stat walDir]), Inl e)
                \<and> IsNotExist (Some e)"
    if "walDir = [] \<or> IsNotExist (stat env walDir)"
      and "e = (if walDir = [] then ErrNotExist else the (stat env walDir))" for e
    using that by (auto simp: collectWALFiles_def Let_def IsNotExist_def split: option.splits)
  have one: "IndexShard env dataDir walDir batchSize verboseLogging tr =
              (tr2 @ (if walDir = [] then [] else [Stat walDir])
                 @ [LogInfo ''compacting index'', IndexCompact, IndexWait,
                    LogInfo ''Closing tsi index'', IndexClose]
                 @ (case indexClose env of
                      None \<Rightarrow> [LogInfo ''Moving tsi to permanent location'', Rename ?tmp ?idx]
                    | Some err \<Rightarrow> [])
                 @ [IndexClose],
               Returned (case indexClose env of
                           None \<Rightarrow> rename env ?tmp ?idx
                         | Some err \<Rightarrow> Some err))"
    if "walDir = [] \<or> IsNotExist (stat env walDir)"
    using absent [OF that refl] opened
    by (simp add: IndexShard_finish_def Let_def split: option.splits)
  have two: "IndexShard env dataDir walDir batchSize verboseLogging tr =
              (tr3 @ [IndexClose], Returned (Some err))"
    if "collectWALFiles env walDir tr2 = (tr3, Inl err)" "\<not> IsNotExist (Some err)"
    using that opened by simp
  from one two show ?thesis by blast
qed

theorem missing_wal_directory_is_no_data_witness:
  "(IsNotExist (stat ex_env (Join ex_env ''d'' ''index''))
    \<and> removeAll ex_env (Join ex_env ''d'' ''.index'') = None
    \<and> indexOpen ex_env (Join ex_env ''d'' ''.index'') = None
    \<and> readDir ex_env ''d'' = Inr [''1.tsm'', ''2.tsm'', ''notes.txt'']
    \<and> IndexShard_tsmLoop ex_env 2 False
         (map (Join ex_env ''d'')
            (filter (\<lambda>n. filepath_Ext n = ''.'' @ TSMFileExtension ex_env)
               [''1.tsm'', ''2.tsm'', ''notes.txt'']))
         ([] @ opening_events (Join ex_env ''d'' ''index'') (Join ex_env ''d'' ''.index'')
             @ [ReadDir ''d'', LogInfo ''Iterating over tsm files''])
       = (ex_tsm_trace, Returned None))
   \<and> IndexShard ex_env ''d'' [] 2 False [] =
       (ex_tsm_trace
          @ [LogInfo ''compacting index'', IndexCompact, IndexWait,
             LogInfo ''Closing tsi index'', IndexClose,
             LogInfo ''Moving tsi to permanent location'', Rename ''d/.index'' ''d/index'',
             IndexClose],
        Returned None)
   \<and> IsNotExist (stat ex_env ''gone'')
   \<and> IndexShard ex_env ''d'' ''gone'' 2 False [] =
       (ex_tsm_trace
          @ [Stat ''gone'',
             LogInfo ''compacting index'', IndexCompact, IndexWait,
             LogInfo ''Closing tsi index'', IndexClose,
             LogInfo ''Moving tsi to permanent location'', Rename ''d/.index'' ''d/index'',
             IndexClose],
        Returned None)
   \<and> collectWALFiles ex_env ''locked'' ex_tsm_trace =
       (ex_tsm_trace @ [Stat ''locked'', ReadDir ''locked''],
        Inl (PathError ''open'' ''locked'' (ErrorString ''permission denied'')))
   \<and> \<not> IsNotExist (Some (PathError ''open'' ''locked'' (ErrorString ''permission denied'')))
   \<and> IndexShard ex_env ''d'' ''locked'' 2 False [] =
       (ex_tsm_trace @ [Stat ''locked'', ReadDir ''locked'', IndexClose],
        Returned (Some (PathError ''open'' ''locked'' (ErrorString ''permission denied''))))"
  (is "?H \<and> ?A \<and> ?G \<and> ?B \<and> ?L \<and> ?N \<and> ?C")
proof -
  have h1: "IsNotExist (stat ex_env (Join ex_env ''d'' ''index''))"
    by (simp add: ex_env_def IsNotExist_def)
  have h2: "removeAll ex_env (Join ex_env ''d'' ''.index'') = None"
    and h3: "indexOpen ex_env (Join ex_env ''d'' ''.index'') = None"
    and h4: "readDir ex_env ''d'' = Inr [''1.tsm'', ''2.tsm'', ''notes.txt'']"
    by (simp_all add: ex_env_def)
  have h5: "IndexShard_tsmLoop ex_env 2 False
         (map (Join ex_env ''d'')
            (filter (\<lambda>n. filepath_Ext n = ''.'' @ TSMFileExtension ex_env)
               [''1.tsm'', ''2.tsm'', ''notes.txt'']))
         ([] @ opening_events (Join ex_env ''d'' ''index'') (Join ex_env ''d'' ''.index'')
             @ [ReadDir ''d'', LogInfo ''Iterating over tsm files''])
       = (ex_tsm_trace, Returned None)"
    by (simp add: run_defs ex_env_def ex_tsm_trace_def opening_events_def numeral_2_eq_2)
  have g: ?G
    by (simp add: ex_env_def IsNotExist_def)
  have l: ?L
    by (simp add: collectWALFiles_def ex_env_def IsNotExist_def)
  have n: ?N
    by (simp add: IsNotExist_def)
  note inst = missing_wal_directory_is_no_data [OF h1 h2 h3 h4 h5]
  have a: ?A
    using inst [where walDir = "[]"] by (simp add: ex_env_def)
  have b: ?B
    using g inst [where walDir = "''gone''"] by (simp add: ex_env_def)
  have c: ?C
    using l n inst [where walDir = "''locked''"] by simp
  from h1 h2 h3 h4 h5 a g b l n c show ?thesis
    by (intro conjI)
qed

subsection \<open>The insert calls and their order\<close>

text \<open>
  Claim C10. Every call of \<^verbatim>\<open>CreateSeriesListIfNotExists\<close> in a run of \<^verbatim>\<open>IndexShard\<close>, and in a
  run of \<^verbatim>\<open>IndexTSMFile\<close> on its own, passes three slices of one length, which is not zero,
  and the name and the tag set at each index are the result of parsing the key at that
  index (\<^verbatim>\<open>ParseKeyBytes\<close> in the cache loop, \<^verbatim>\<open>ParseKeyBytesWithTags\<close> with some buffer in
  \<^verbatim>\<open>IndexTSMFile\<close>). This holds for every batch size: with a batch size below one the code
  panics before it makes a call that is not parallel.
\<close>

theorem insert_calls_are_parallel:
  "(\<forall>e \<in> set (fst (IndexShard env dataDir walDir batchSize verboseLogging [])).
       parallel_call env e)
   \<and> (\<forall>e \<in> set (fst (IndexTSMFile env p batchSize verboseLogging [])). parallel_call env e)"
proof
  let ?idx = "Join env dataDir ''index''" and ?tmp = "Join env dataDir ''.index''"
  let ?tr = "fst (IndexShard env dataDir walDir batchSize verboseLogging [])"
  show "\<forall>e \<in> set ?tr. parallel_call env e"
  proof
    fix e assume e: "e \<in> set ?tr"
    from IndexShard_phases [of env dataDir walDir batchSize verboseLogging "[]"]
    consider
      (skip) "?tr = take 3 (opening_events ?idx ?tmp)
                      @ [LogInfo ''tsi1 index already exists, skipping'']"
    | (rm) "?tr = take 6 (opening_events ?idx ?tmp)"
    | (op) "?tr = opening_events ?idx ?tmp"
    | (run) A B F where "?tr = opening_events ?idx ?tmp @ A @ B @ F @ [IndexClose]"
        "list_all (tsm_phase_event env) A" "list_all (cache_phase_event env) B"
        "F = [] \<or> F = fst (IndexShard_finish env ?tmp ?idx [])"
      by auto
    then show "parallel_call env e"
    proof cases
      case skip
      with e show ?thesis by (auto simp: opening_events_def)
    next
      case rm
      with e show ?thesis by (auto simp: opening_events_def)
    next
      case op
      with e show ?thesis by (auto simp: opening_events_def)
    next
      case run
      from e run(1) consider "e \<in> set (opening_events ?idx ?tmp)" | "e \<in> set A"
        | "e \<in> set B" | "e \<in> set F" | "e = IndexClose"
        by auto
      then show ?thesis
      proof cases
        case 1
        then show ?thesis by (simp add: opening_events_plain)
      next
        case 2
        with run(2) show ?thesis by (auto simp: list_all_iff intro: tsm_phase_event_parallel)
      next
        case 3
        with run(3) show ?thesis by (auto simp: list_all_iff intro: cache_phase_event_parallel)
      next
        case 4
        with run(4) show ?thesis by (auto dest: finish_events_plain)
      next
        case 5
        then show ?thesis by simp
      qed
    qed
  qed
next
  show "\<forall>e \<in> set (fst (IndexTSMFile env p batchSize verboseLogging [])). parallel_call env e"
    using IndexTSMFile_events [of env p batchSize verboseLogging "[]"]
    by (auto simp: list_all_iff intro: tsm_phase_event_parallel)
qed

theorem insert_calls_are_parallel_witness:
  "CreateSeriesListIfNotExists (FromTSMFile ''d/1.tsm'')
       [''cpu,host=a'', ''cpu,host=b''] [''cpu'', ''cpu''] [[], []]
     \<in> set (fst (IndexShard ex_env ''d'' ''w'' 2 False []))
   \<and> parallel_call ex_env
        (CreateSeriesListIfNotExists (FromTSMFile ''d/1.tsm'')
           [''cpu,host=a'', ''cpu,host=b''] [''cpu'', ''cpu''] [[], []])
   \<and> CreateSeriesListIfNotExists FromCache [''mem,host=a''] [''mem''] [[]]
     \<in> set (fst (IndexShard ex_env ''d'' ''w'' 2 False []))
   \<and> parallel_call ex_env
        (CreateSeriesListIfNotExists FromCache [''mem,host=a''] [''mem''] [[]])
   \<and> CreateSeriesListIfNotExists (FromTSMFile ''d/1.tsm'') [''cpu,host=c''] [''cpu''] [[]]
     \<in> set (fst (IndexTSMFile ex_env ''d/1.tsm'' 2 False []))
   \<and> parallel_call ex_env
        (CreateSeriesListIfNotExists (FromTSMFile ''d/1.tsm'') [''cpu,host=c''] [''cpu''] [[]])"
proof -
  note all = insert_calls_are_parallel [of ex_env "''d''" "''w''" 2 False "''d/1.tsm''"]
  have m1: "CreateSeriesListIfNotExists (FromTSMFile ''d/1.tsm'')
       [''cpu,host=a'', ''cpu,host=b''] [''cpu'', ''cpu''] [[], []]
     \<in> set (fst (IndexShard ex_env ''d'' ''w'' 2 False []))"
    and m2: "CreateSeriesListIfNotExists FromCache [''mem,host=a''] [''mem''] [[]]
     \<in> set (fst (IndexShard ex_env ''d'' ''w'' 2 False []))"
    by (simp_all add: ex_run)
  have m3: "CreateSeriesListIfNotExists (FromTSMFile ''d/1.tsm'') [''cpu,host=c''] [''cpu''] [[]]
     \<in> set (fst (IndexTSMFile ex_env ''d/1.tsm'' 2 False []))"
    by (simp add: run_defs ex_env_def numeral_2_eq_2)
  from m1 m2 m3 all [THEN conjunct1, THEN bspec, OF m1] all [THEN conjunct1, THEN bspec, OF m2]
    all [THEN conjunct2, THEN bspec, OF m3]
  show ?thesis
    by (intro conjI)
qed

text \<open>
  Claim C8. In the trace of a run of \<^verbatim>\<open>IndexShard\<close>, every event of \<^verbatim>\<open>IndexTSMFile\<close> (the
  opening, reading and closing of a TSM file and the insert calls for its keys) comes
  before every event of the cache (its loading from the WAL files and the insert calls
  for its keys).
\<close>

theorem tsm_series_before_cache_series:
  assumes "tr = fst (IndexShard env dataDir walDir batchSize verboseLogging [])"
  shows "\<forall>i j. i < length tr \<and> j < length tr \<and> tsm_file_event (tr ! i) \<and> cache_event (tr ! j)
           \<longrightarrow> i < j"
proof (intro allI impI)
  fix i j
  assume a: "i < length tr \<and> j < length tr \<and> tsm_file_event (tr ! i) \<and> cache_event (tr ! j)"
  let ?idx = "Join env dataDir ''index''" and ?tmp = "Join env dataDir ''.index''"
  have split: "\<exists>X Y. tr = X @ Y \<and> (\<forall>e \<in> set X. \<not> cache_event e)
                 \<and> (\<forall>e \<in> set Y. \<not> tsm_file_event e)"
  proof -
    from IndexShard_phases [of env dataDir walDir batchSize verboseLogging "[]"] assms
    consider
      (short) "tr = take 3 (opening_events ?idx ?tmp)
                      @ [LogInfo ''tsi1 index already exists, skipping'']
               \<or> tr = take 6 (opening_events ?idx ?tmp) \<or> tr = opening_events ?idx ?tmp"
    | (run) A B F where "tr = opening_events ?idx ?tmp @ A @ B @ F @ [IndexClose]"
        "list_all (tsm_phase_event env) A" "list_all (cache_phase_event env) B"
        "F = [] \<or> F = fst (IndexShard_finish env ?tmp ?idx [])"
      by auto
    then show ?thesis
    proof cases
      case short
      then have "\<forall>e \<in> set tr. \<not> cache_event e"
        by (auto simp: opening_events_def)
      then show ?thesis
        by (intro exI [of _ tr] exI [of _ "[]"]) simp
    next
      case run
      let ?X = "opening_events ?idx ?tmp @ A" and ?Y = "B @ F @ [IndexClose]"
      have "\<forall>e \<in> set ?X. \<not> cache_event e"
        using run(2) by (auto simp: list_all_iff dest: opening_events_plain tsm_phase_event_not_cache)
      moreover have "\<forall>e \<in> set ?Y. \<not> tsm_file_event e"
        using run(3,4) by (auto simp: list_all_iff dest: finish_events_plain cache_phase_event_not_tsm)
      moreover have "tr = ?X @ ?Y"
        using run(1) by simp
      ultimately show ?thesis by blast
    qed
  qed
  then obtain X Y where tr: "tr = X @ Y" and X: "\<forall>e \<in> set X. \<not> cache_event e"
    and Y: "\<forall>e \<in> set Y. \<not> tsm_file_event e"
    by blast
  have "i < length X"
  proof (rule ccontr)
    assume n: "\<not> i < length X"
    with a tr have "i - length X < length Y"
      by auto
    then have "Y ! (i - length X) \<in> set Y"
      by (rule nth_mem)
    with n tr have "tr ! i \<in> set Y"
      by (simp add: nth_append)
    with Y a show False by blast
  qed
  moreover have "length X \<le> j"
  proof (rule ccontr)
    assume "\<not> length X \<le> j"
    then have n: "j < length X"
      by simp
    then have "X ! j \<in> set X"
      by (rule nth_mem)
    with n tr have "tr ! j \<in> set X"
      by (simp add: nth_append)
    with X a show False by blast
  qed
  ultimately show "i < j" by simp
qed

theorem tsm_series_before_cache_series_witness:
  "13 < length (fst (IndexShard ex_env ''d'' ''w'' 2 False []))
   \<and> 25 < length (fst (IndexShard ex_env ''d'' ''w'' 2 False []))
   \<and> fst (IndexShard ex_env ''d'' ''w'' 2 False []) ! 13 =
       CreateSeriesListIfNotExists (FromTSMFile ''d/1.tsm'')
         [''cpu,host=a'', ''cpu,host=b''] [''cpu'', ''cpu''] [[], []]
   \<and> tsm_file_event (fst (IndexShard ex_env ''d'' ''w'' 2 False []) ! 13)
   \<and> fst (IndexShard ex_env ''d'' ''w'' 2 False []) ! 25 = CacheLoad [''w/_1.wal'']
   \<and> cache_event (fst (IndexShard ex_env ''d'' ''w'' 2 False []) ! 25)
   \<and> (13 :: nat) < 25"
proof -
  let ?tr = "fst (IndexShard ex_env ''d'' ''w'' 2 False [])"
  have p: "13 < length ?tr" "25 < length ?tr"
    "?tr ! 13 = CreateSeriesListIfNotExists (FromTSMFile ''d/1.tsm'')
         [''cpu,host=a'', ''cpu,host=b''] [''cpu'', ''cpu''] [[], []]"
    "tsm_file_event (?tr ! 13)"
    "?tr ! 25 = CacheLoad [''w/_1.wal'']"
    "cache_event (?tr ! 25)"
    by (simp_all add: ex_run)
  from tsm_series_before_cache_series [OF refl, of ex_env "''d''" "''w''" 2 False,
      rule_format, of 13 25] p
  have "(13 :: nat) < 25"
    by blast
  with p show ?thesis
    by (intro conjI)
qed

text \<open>
  Claim C3. Let the batch size be positive. When \<^verbatim>\<open>IndexTSMFile\<close> returns \<^verbatim>\<open>nil\<close> for a file
  that opened and parsed with keys \<open>ks\<close>, the batches it passed to the index are the
  chunks of the series keys of \<open>ks\<close>, in order; and when the cache phase of \<^verbatim>\<open>IndexShard\<close>
  returns \<^verbatim>\<open>nil\<close> for a cache with keys \<open>cks\<close>, the batches it passed are the chunks of the
  series keys of \<open>cks\<close>. (The key in a batch is the series key that
  \<^verbatim>\<open>SeriesAndFieldFromCompositeKey\<close> gives for the enumerated key; a failing insert call ends
  the run with its error.) The chunks of a sequence of \<open>k\<close> elements are
  \<open>(k + b - 1) div b\<close> many, which is the ceiling of \<open>k / b\<close>; each but the last has \<open>b\<close>
  elements; and their concatenation is the sequence.
\<close>

theorem batches_are_chunks_of_the_keys:
  assumes "0 < batchSize"
  shows "(openFile env p = None \<and> newTSMReader env p = Inr ks
          \<and> IndexTSMFile env p batchSize verboseLogging tr = (tr', Returned None)
          \<longrightarrow> batches (FromTSMFile p) tr' =
                batches (FromTSMFile p) tr
                  @ chunks (nat batchSize)
                      (map (\<lambda>k. fst (SeriesAndFieldFromCompositeKey env k)) ks))
       \<and> (cacheLoad env walPaths = Inr cks
          \<and> IndexShard_cache env walPaths batchSize verboseLogging ctr = (ctr', Returned None)
          \<longrightarrow> batches FromCache ctr' =
                batches FromCache ctr
                  @ chunks (nat batchSize)
                      (map (\<lambda>k. fst (SeriesAndFieldFromCompositeKey env k)) cks))
       \<and> length (chunks (nat batchSize) xs)
           = (length xs + nat batchSize - 1) div nat batchSize
       \<and> (\<forall>i. Suc i < length (chunks (nat batchSize) xs)
               \<longrightarrow> length (chunks (nat batchSize) xs ! i) = nat batchSize)
       \<and> concat (chunks (nat batchSize) xs) = xs"
proof -
  from assms have n: "0 < nat batchSize" by simp
  show ?thesis
    using IndexTSMFile_batches [OF assms, of env p ks verboseLogging tr tr']
      IndexShard_cache_batches [OF assms, of env walPaths cks verboseLogging ctr ctr']
      length_chunks [OF n, of xs] chunks_all_but_last_full [OF n, of _ xs]
      concat_chunks [OF n, of xs]
    by blast
qed

theorem batches_are_chunks_of_the_keys_witness:
  "((0::int) < 2
    \<and> openFile ex_env ''d/1.tsm'' = None
    \<and> newTSMReader ex_env ''d/1.tsm'' =
        Inr [''cpu,host=a#value'', ''cpu,host=b#value'', ''cpu,host=c#value'']
    \<and> snd (IndexTSMFile ex_env ''d/1.tsm'' 2 False []) = Returned None
    \<and> cacheLoad ex_env [''w/_1.wal''] = Inr [''mem,host=a#value'']
    \<and> snd (IndexShard_cache ex_env [''w/_1.wal''] 2 False []) = Returned None)
   \<and> batches (FromTSMFile ''d/1.tsm'') (fst (IndexTSMFile ex_env ''d/1.tsm'' 2 False []))
       = [[''cpu,host=a'', ''cpu,host=b''], [''cpu,host=c'']]
   \<and> batches FromCache (fst (IndexShard_cache ex_env [''w/_1.wal''] 2 False []))
       = [[''mem,host=a'']]
   \<and> length (chunks (nat 2) [''cpu,host=a'', ''cpu,host=b'', ''cpu,host=c''])
       = (length [''cpu,host=a'', ''cpu,host=b'', ''cpu,host=c''] + nat 2 - 1) div nat 2
   \<and> length (chunks (nat 2) [''cpu,host=a'', ''cpu,host=b'', ''cpu,host=c'']) = 2
   \<and> length (chunks (nat 2) [''cpu,host=a'', ''cpu,host=b'', ''cpu,host=c''] ! 0) = nat 2
   \<and> concat (chunks (nat 2) [''cpu,host=a'', ''cpu,host=b'', ''cpu,host=c''])
       = [''cpu,host=a'', ''cpu,host=b'', ''cpu,host=c'']"
  (is "?H \<and> ?T \<and> ?C \<and> ?L \<and> ?L2 \<and> ?F \<and> ?J")
proof -
  have pos: "(0::int) < 2" by simp
  have h: "openFile ex_env ''d/1.tsm'' = None"
    "newTSMReader ex_env ''d/1.tsm'' =
        Inr [''cpu,host=a#value'', ''cpu,host=b#value'', ''cpu,host=c#value'']"
    "cacheLoad ex_env [''w/_1.wal''] = Inr [''mem,host=a#value'']"
    by (simp_all add: ex_env_def)
  have r1: "snd (IndexTSMFile ex_env ''d/1.tsm'' 2 False []) = Returned None"
    by (simp add: run_defs ex_env_def numeral_2_eq_2)
  have r2: "snd (IndexShard_cache ex_env [''w/_1.wal''] 2 False []) = Returned None"
    by (simp add: run_defs ex_env_def numeral_2_eq_2)
  have e1: "IndexTSMFile ex_env ''d/1.tsm'' 2 False []
              = (fst (IndexTSMFile ex_env ''d/1.tsm'' 2 False []), Returned None)"
    using r1 by (simp add: prod_eq_iff)
  have e2: "IndexShard_cache ex_env [''w/_1.wal''] 2 False []
              = (fst (IndexShard_cache ex_env [''w/_1.wal''] 2 False []), Returned None)"
    using r2 by (simp add: prod_eq_iff)
  have ch: "chunks (nat 2) [''cpu,host=a'', ''cpu,host=b'', ''cpu,host=c'']
              = [[''cpu,host=a'', ''cpu,host=b''], [''cpu,host=c'']]"
    by (simp add: chunks.simps numeral_2_eq_2)
  have sk: "map (\<lambda>k. fst (SeriesAndFieldFromCompositeKey ex_env k))
              [''cpu,host=a#value'', ''cpu,host=b#value'', ''cpu,host=c#value'']
            = [''cpu,host=a'', ''cpu,host=b'', ''cpu,host=c'']"
    "map (\<lambda>k. fst (SeriesAndFieldFromCompositeKey ex_env k)) [''mem,host=a#value'']
       = [''mem,host=a'']"
    by (simp_all add: ex_env_def)
  note inst = batches_are_chunks_of_the_keys [OF pos,
      where env = ex_env and p = "''d/1.tsm''" and verboseLogging = False and tr = "[]"
        and ks = "[''cpu,host=a#value'', ''cpu,host=b#value'', ''cpu,host=c#value'']"
        and tr' = "fst (IndexTSMFile ex_env ''d/1.tsm'' 2 False [])"
        and walPaths = "[''w/_1.wal'']" and cks = "[''mem,host=a#value'']" and ctr = "[]"
        and ctr' = "fst (IndexShard_cache ex_env [''w/_1.wal''] 2 False [])"
        and xs = "[''cpu,host=a'', ''cpu,host=b'', ''cpu,host=c'']"]
  have hyps: ?H
    using pos h r1 r2 by (intro conjI)
  have t: ?T
    using inst h e1 sk(1) ch by simp
  have c: ?C
    using inst h e2 sk(2) by (simp add: chunks.simps numeral_2_eq_2)
  have l: ?L
    using inst by blast
  have l2: ?L2
    using ch by simp
  have f: ?F
    using inst l2 by simp
  have j: ?J
    using inst by blast
  show ?thesis
    by (rule conjI [OF hyps conjI [OF t conjI [OF c conjI [OF l conjI [OF l2 conjI [OF f j]]]]]])
qed

end
